theory Spec2Isabelle
  imports Complex_Main "HOL-Library.Sublist" "HOL-Library.Multiset" "HOL-Library.Product_Lexorder"
begin

text \<open>
  A shallow embedding of the two core subsystems of the repository: the hierarchical
  adaptive chunker (\<open>adaptive_chunker.py\<close>, with the critical-paragraph test of
  \<open>universal_classifier.py\<close>) and the hybrid retrieval engine (\<open>hybrid_retrieval.py\<close>,
  \<open>deduplication_utils.py\<close>, \<open>retrieval_types.py\<close>). Python's unbounded integers are
  \<open>int\<close>, lengths and positions \<open>nat\<close>, floats the type \<open>pyfloat\<close> of IEEE doubles with
  their infinities and NaN; a loop is a recursive function over its state or a fold; a call
  that may raise returns a sum. The definitions come first, the properties after them.
\<close>

section \<open>Text primitives of the Python runtime\<close>

text \<open>
  A Python \<open>str\<close> is a sequence of code points. The model is \<open>string\<close>, one \<open>char\<close> per
  code point, so it covers texts whose code points are below 256 (ASCII and Latin-1). On that
  range \<open>is_space\<close> is the set \<open>str.strip()\<close> removes and the regular expression class
  \<open>\s\<close> matches, \<open>is_digit\<close> is \<open>\d\<close>, and \<open>lower_char\<close> is \<open>str.lower()\<close>.
\<close>

definition is_space :: "char \<Rightarrow> bool" where
  "is_space c = (let n = (of_char c :: nat) in
     (9 \<le> n \<and> n \<le> 13) \<or> (28 \<le> n \<and> n \<le> 32) \<or> n = 133 \<or> n = 160)"

definition is_digit :: "char \<Rightarrow> bool" where
  "is_digit c = (let n = (of_char c :: nat) in 48 \<le> n \<and> n \<le> 57)"

definition is_upper_az :: "char \<Rightarrow> bool" where
  "is_upper_az c = (let n = (of_char c :: nat) in 65 \<le> n \<and> n \<le> 90)"

definition is_lower_az :: "char \<Rightarrow> bool" where
  "is_lower_az c = (let n = (of_char c :: nat) in 97 \<le> n \<and> n \<le> 122)"

definition lower_char :: "char \<Rightarrow> char" where
  "lower_char c = (let n = (of_char c :: nat) in
     if (65 \<le> n \<and> n \<le> 90) \<or> (192 \<le> n \<and> n \<le> 222 \<and> n \<noteq> 215)
     then char_of (n + 32) else c)"

definition lower :: "string \<Rightarrow> string" where
  "lower s = map lower_char s"

definition strip :: "string \<Rightarrow> string" where
  "strip s = rev (dropWhile is_space (rev (dropWhile is_space s)))"

text \<open>Python's \<open>xs[:k]\<close>: a negative \<open>k\<close> counts from the end.\<close>

definition py_take :: "int \<Rightarrow> 'a list \<Rightarrow> 'a list" where
  "py_take k xs = (if 0 \<le> k then take (nat k) xs else take (length xs - nat (- k)) xs)"

section \<open>Floats of the Python runtime\<close>

text \<open>
  A Python \<open>float\<close> is an IEEE 754 binary64 value: a finite double, an infinity or NaN. A
  finite double is the rational number it denotes, so the constructor \<open>Fin\<close> ranges over a
  superset of the doubles; the results of the arithmetic below are always doubles. The two
  zeros are one value: they compare equal, and the engine only compares and multiplies
  scores.
\<close>

datatype pyfloat = Fin rat | PInf | NInf | NaN

text \<open>
  Comparison: every comparison with NaN is false; the other values are ordered as the
  extended rationals, which \<open>float_key\<close> embeds into a lexicographic pair.
\<close>

definition float_key :: "pyfloat \<Rightarrow> int \<times> rat" where
  "float_key x = (case x of Fin q \<Rightarrow> (0, q) | PInf \<Rightarrow> (1, 0) | NInf \<Rightarrow> (- 1, 0) | NaN \<Rightarrow> (0, 0))"

definition float_lt :: "pyfloat \<Rightarrow> pyfloat \<Rightarrow> bool" where
  "float_lt a b = (a \<noteq> NaN \<and> b \<noteq> NaN \<and> float_key a < float_key b)"

definition float_ge :: "pyfloat \<Rightarrow> pyfloat \<Rightarrow> bool" where
  "float_ge a b = (a \<noteq> NaN \<and> b \<noteq> NaN \<and> float_key b \<le> float_key a)"

text \<open>
  Rounding to the nearest double, ties to even. \<open>ilog2 x\<close> is the exponent \<open>e\<close> with
  \<open>2^e \<le> \<bar>x\<bar> < 2^(e+1)\<close>; a double has 53 significant bits and its least exponent is
  -1022 (below it the doubles are the multiples of \<open>2^-1074\<close>); a result of magnitude
  \<open>2^1024\<close> or more, that is of exponent 1024 or more, is an infinity.
\<close>

definition pow2 :: "int \<Rightarrow> rat" where
  "pow2 n = (if 0 \<le> n then 2 ^ nat n else 1 / 2 ^ nat (- n))"

function bit_length :: "int \<Rightarrow> int" where
  "bit_length n = (if n \<le> 0 then 0 else 1 + bit_length (n div 2))"
  by pat_completeness auto
termination by (relation "measure nat") auto

definition ilog2 :: "rat \<Rightarrow> int" where
  "ilog2 x = (let (p, q) = quotient_of x; d = bit_length \<bar>p\<bar> - bit_length q
              in if pow2 d \<le> \<bar>x\<bar> then d else d - 1)"

definition round_half_even :: "rat \<Rightarrow> int" where
  "round_half_even q =
     (let f = \<lfloor>q\<rfloor>; d = q - of_int f
      in if d < 1 / 2 then f else if 1 / 2 < d then f + 1 else if even f then f else f + 1)"

definition round64 :: "rat \<Rightarrow> pyfloat" where
  "round64 x =
     (if x = 0 then Fin 0
      else let e = max (ilog2 x) (- 1022) - 52;
               y = of_int (round_half_even (x / pow2 e)) * pow2 e
           in if 1024 \<le> ilog2 y then (if 0 < x then PInf else NInf) else Fin y)"

text \<open>
  A float literal denotes the double nearest to its decimal value. Multiplication and
  addition round the exact result; with an infinity or NaN they follow IEEE 754.
  \<open>float_of_int\<close> is the conversion Python applies to an \<open>int\<close> operand of a float
  operation (for an integer below \<open>2^1024\<close>, which every count of list entries is).
\<close>

definition float_literal :: "rat \<Rightarrow> pyfloat" where
  "float_literal q = round64 q"

definition float_of_int :: "int \<Rightarrow> pyfloat" where
  "float_of_int n = round64 (of_int n)"

definition is_negative :: "pyfloat \<Rightarrow> bool" where
  "is_negative a = float_lt a (Fin 0)"

definition float_mul :: "pyfloat \<Rightarrow> pyfloat \<Rightarrow> pyfloat" where
  "float_mul a b =
     (case (a, b) of
        (Fin x, Fin y) \<Rightarrow> round64 (x * y)
      | _ \<Rightarrow> if a = NaN \<or> b = NaN \<or> a = Fin 0 \<or> b = Fin 0 then NaN
             else if is_negative a = is_negative b then PInf else NInf)"

definition float_add :: "pyfloat \<Rightarrow> pyfloat \<Rightarrow> pyfloat" where
  "float_add a b =
     (case (a, b) of
        (Fin x, Fin y) \<Rightarrow> round64 (x + y)
      | _ \<Rightarrow> if a = NaN \<or> b = NaN \<or> (a = PInf \<and> b = NInf) \<or> (a = NInf \<and> b = PInf) then NaN
             else if a = PInf \<or> b = PInf then PInf else NInf)"

section \<open>Sorting of the Python runtime\<close>

text \<open>
  \<open>sorted\<close> and \<open>list.sort\<close> compare keys with \<open><\<close> only. On keys that \<open><\<close> orders totally
  the result is the stable sort, whatever the algorithm. On float keys with a NaN among
  them \<open><\<close> is not a total order and the result is what the algorithm's comparisons make of
  it, so the model follows the algorithm of CPython (\<open>Objects/listobject.c\<close>): the initial
  run is found by \<open>count_run\<close> (a strictly descending run is reversed), and the remaining
  elements are inserted one by one at the position a binary search finds
  (\<open>binarysort\<close>). CPython sorts a list of fewer than 64 elements in exactly this way; a
  longer list is cut into several runs that are merged, which gives the same result on
  totally ordered keys.
\<close>

fun run_length :: "('a \<Rightarrow> 'a \<Rightarrow> bool) \<Rightarrow> bool \<Rightarrow> 'a \<Rightarrow> 'a list \<Rightarrow> nat" where
  "run_length lt descending prev [] = 0"
| "run_length lt descending prev (x # xs) =
     (if lt x prev = descending then Suc (run_length lt descending x xs) else 0)"

definition count_run :: "('a \<Rightarrow> 'a \<Rightarrow> bool) \<Rightarrow> 'a list \<Rightarrow> nat \<times> bool" where
  "count_run lt xs =
     (case xs of
        [] \<Rightarrow> (0, False)
      | [x] \<Rightarrow> (1, False)
      | x0 # x1 # rest \<Rightarrow> (2 + run_length lt (lt x1 x0) x1 rest, lt x1 x0))"

function bisect :: "('a \<Rightarrow> 'a \<Rightarrow> bool) \<Rightarrow> 'a \<Rightarrow> 'a list \<Rightarrow> nat \<Rightarrow> nat \<Rightarrow> nat" where
  "bisect lt pivot xs l r =
     (if l < r
      then (let p = l + (r - l) div 2
            in if lt pivot (xs ! p) then bisect lt pivot xs l p else bisect lt pivot xs (p + 1) r)
      else l)"
  by pat_completeness auto
termination by (relation "measure (\<lambda>(lt, pivot, xs, l, r). r - l)") auto

definition binarysort :: "('a \<Rightarrow> 'a \<Rightarrow> bool) \<Rightarrow> 'a list \<Rightarrow> 'a list \<Rightarrow> 'a list" where
  "binarysort lt run rest =
     foldl (\<lambda>s pivot. let l = bisect lt pivot s 0 (length s) in take l s @ pivot # drop l s)
       run rest"

definition list_sort :: "('a \<Rightarrow> 'a \<Rightarrow> bool) \<Rightarrow> 'a list \<Rightarrow> 'a list" where
  "list_sort lt xs =
     (if length xs < 2 then xs
      else let (n, descending) = count_run lt xs;
               run = (if descending then rev (take n xs) else take n xs)
           in binarysort lt run (drop n xs))"

text \<open>
  With \<open>reverse=True\<close> the list is reversed, sorted in ascending order and reversed again,
  which keeps elements of equal key in their original order.
\<close>

definition py_sorted :: "('a \<Rightarrow> 'a \<Rightarrow> bool) \<Rightarrow> bool \<Rightarrow> 'a list \<Rightarrow> 'a list" where
  "py_sorted lt reverse xs = (if reverse then rev (list_sort lt (rev xs)) else list_sort lt xs)"

section \<open>The regular expressions of the source\<close>

text \<open>
  The source drives all its text analysis through Python's \<open>re\<close> module. The patterns it
  compiles use character classes, greedy repetition of a character class, the anchors \<open>^\<close>
  and \<open>$\<close>, alternation, capturing groups, one look-behind on a character class and one
  look-ahead. \<open>rx\<close> is that fragment as data, so that each pattern of the source is written
  down as a value and can be compared with the source's pattern string.
\<close>

datatype rx =
    Eps
  | Cls "char \<Rightarrow> bool"
  | Rep "char \<Rightarrow> bool" nat "nat option"
  | Bos
  | Bol
  | Eol
  | Behind "char \<Rightarrow> bool"
  | Ahead rx
  | Cat rx rx
  | Alt rx rx
  | Grp nat rx

text \<open>
  A matcher state: the position in the text, the character before it, the text from the
  position on, and the groups captured so far.
\<close>

record mstate =
  m_pos :: nat
  m_prev :: "char option"
  m_rest :: string
  m_groups :: "(nat \<times> string) list"

definition advance :: "nat \<Rightarrow> mstate \<Rightarrow> mstate" where
  "advance k s =
     (if k = 0 then s
      else s\<lparr>m_pos := m_pos s + k, m_prev := Some (m_rest s ! (k - 1)),
             m_rest := drop k (m_rest s)\<rparr>)"

text \<open>
  \<open>rmatch r s\<close> lists the states in which a match of \<open>r\<close> started in \<open>s\<close> can end, in the
  order in which Python's backtracking matcher tries them: a greedy repetition \<open>Rep p lo hi\<close>
  (the source's \<open>*\<close>, \<open>+\<close> and \<open>{10,}\<close> on a class) tries the longest run first, an
  alternation its left branch first. The first state of the list is the match \<open>re\<close>
  reports. \<open>Bos\<close> is \<open>^\<close> without \<open>re.MULTILINE\<close>, \<open>Bol\<close> and \<open>Eol\<close> are \<open>^\<close> and \<open>$\<close> with
  it.
\<close>

fun rmatch :: "rx \<Rightarrow> mstate \<Rightarrow> mstate list" where
  "rmatch Eps s = [s]"
| "rmatch (Cls p) s =
     (case m_rest s of [] \<Rightarrow> [] | c # cs \<Rightarrow> if p c then [advance 1 s] else [])"
| "rmatch (Rep p lo hi) s =
     (let run = length (takeWhile p (m_rest s));
          top = (case hi of None \<Rightarrow> run | Some h \<Rightarrow> min h run)
      in map (\<lambda>k. advance k s) (rev [lo ..< Suc top]))"
| "rmatch Bos s = (if m_prev s = None then [s] else [])"
| "rmatch Bol s = (if m_prev s = None \<or> m_prev s = Some CHR 0x0A then [s] else [])"
| "rmatch Eol s =
     (case m_rest s of [] \<Rightarrow> [s] | c # cs \<Rightarrow> if c = CHR 0x0A then [s] else [])"
| "rmatch (Behind p) s =
     (case m_prev s of None \<Rightarrow> [] | Some c \<Rightarrow> if p c then [s] else [])"
| "rmatch (Ahead r) s = (if rmatch r s = [] then [] else [s])"
| "rmatch (Cat a b) s = concat (map (rmatch b) (rmatch a s))"
| "rmatch (Alt a b) s = rmatch a s @ rmatch b s"
| "rmatch (Grp n r) s =
     map (\<lambda>e. e\<lparr>m_groups := (n, take (m_pos e - m_pos s) (m_rest s)) # m_groups e\<rparr>)
       (rmatch r s)"

fun cats :: "rx list \<Rightarrow> rx" where
  "cats [] = Eps"
| "cats (r # rs) = Cat r (cats rs)"

text \<open>A literal string, and a literal string under \<open>re.IGNORECASE\<close>.\<close>

definition lit :: "string \<Rightarrow> rx" where
  "lit w = cats (map (\<lambda>c. Cls (\<lambda>x. x = c)) w)"

definition lit_ignorecase :: "string \<Rightarrow> rx" where
  "lit_ignorecase w = cats (map (\<lambda>c. Cls (\<lambda>x. lower_char x = lower_char c)) w)"

text \<open>A match object: \<open>start()\<close>, \<open>end()\<close> and the captured groups.\<close>

record re_match =
  m_start :: nat
  m_end :: nat
  m_captures :: "(nat \<times> string) list"

definition group :: "re_match \<Rightarrow> nat \<Rightarrow> string" where
  "group m n = (case map_of (m_captures m) n of None \<Rightarrow> [] | Some g \<Rightarrow> g)"

definition mk_match :: "mstate \<Rightarrow> mstate \<Rightarrow> re_match" where
  "mk_match s e = \<lparr>m_start = m_pos s, m_end = m_pos e, m_captures = m_groups e\<rparr>"

text \<open>The matcher states of all positions of a text, from left to right.\<close>

fun states_from :: "nat \<Rightarrow> char option \<Rightarrow> string \<Rightarrow> mstate list" where
  "states_from p pv [] = [\<lparr>m_pos = p, m_prev = pv, m_rest = [], m_groups = []\<rparr>]"
| "states_from p pv (c # cs) =
     \<lparr>m_pos = p, m_prev = pv, m_rest = c # cs, m_groups = []\<rparr> # states_from (Suc p) (Some c) cs"

text \<open>
  The scan behind \<open>finditer\<close>, \<open>split\<close> and \<open>search\<close>: matches are found from left to right
  and do not overlap; the search resumes where the last match ended (\<open>resume\<close>). After an
  empty match the next match at the same position must be non-empty (Python 3.7 and later).
\<close>

fun scan :: "rx \<Rightarrow> mstate list \<Rightarrow> nat \<Rightarrow> re_match list" where
  "scan r [] resume = []"
| "scan r (s # ss) resume =
     (if m_pos s < resume then scan r ss resume
      else
        (case rmatch r s of
           [] \<Rightarrow> scan r ss resume
         | e # es \<Rightarrow>
             if m_pos s < m_pos e then mk_match s e # scan r ss (m_pos e)
             else
               (case filter (\<lambda>e'. m_pos s < m_pos e') es of
                  [] \<Rightarrow> mk_match s e # scan r ss resume
                | e2 # _ \<Rightarrow> mk_match s e # mk_match s e2 # scan r ss (m_pos e2))))"

definition finditer :: "rx \<Rightarrow> string \<Rightarrow> re_match list" where
  "finditer r txt = scan r (states_from 0 None txt) 0"

definition re_search :: "rx \<Rightarrow> string \<Rightarrow> bool" where
  "re_search r txt = (finditer r txt \<noteq> [])"

text \<open>
  \<open>re.split\<close> for a pattern without capturing groups: the pieces of the text between the
  matches.
\<close>

fun split_pieces :: "string \<Rightarrow> nat \<Rightarrow> re_match list \<Rightarrow> string list" where
  "split_pieces txt last_end [] = [drop last_end txt]"
| "split_pieces txt last_end (m # ms) =
     take (m_start m - last_end) (drop last_end txt) # split_pieces txt (m_end m) ms"

definition re_split :: "rx \<Rightarrow> string \<Rightarrow> string list" where
  "re_split r txt = split_pieces txt 0 (finditer r txt)"

subsection \<open>Character classes\<close>

definition is_newline :: "char \<Rightarrow> bool" where
  "is_newline c = (c = CHR 0x0A)"

definition is_alpha_az :: "char \<Rightarrow> bool" where
  "is_alpha_az c = (is_upper_az c \<or> is_lower_az c)"

text \<open>
  \<open>[-\<dots>:]\<close> of the main note pattern: hyphen and colon; the en dash and the em dash of
  the class have code points above 255.
\<close>

definition is_dash :: "char \<Rightarrow> bool" where
  "is_dash c = (c = CHR ''-'' \<or> c = CHR '':'')"

text \<open>\<open>[A-Za-z\s,&\(\)]\<close>, the characters of a title after its first letter.\<close>

definition is_title_char :: "char \<Rightarrow> bool" where
  "is_title_char c =
     (is_alpha_az c \<or> is_space c \<or> c = CHR '','' \<or> c = CHR ''&'' \<or> c = CHR ''('' \<or> c = CHR '')'')"

definition is_sentence_end :: "char \<Rightarrow> bool" where
  "is_sentence_end c = (c = CHR ''.'' \<or> c = CHR ''!'' \<or> c = CHR ''?'')"

text \<open>
  \<open>[\<bullet>\-\*]\<close> of the list patterns: hyphen and asterisk; the bullet has a code point above
  255.
\<close>

definition is_bullet :: "char \<Rightarrow> bool" where
  "is_bullet c = (c = CHR ''-'' \<or> c = CHR ''*'')"

subsection \<open>The patterns\<close>

text \<open>
  \<open>NoteParser.main_note_pattern\<close>, flags \<open>IGNORECASE | MULTILINE\<close>:
  \<^verbatim>\<open>(?:^|\n)\s*NOTE\s+(\d+)\s*[-...:]*\s*([A-Z][A-Za-z\s,&\(\)]*)\<close>.
  Under \<open>IGNORECASE\<close> the class \<open>[A-Z]\<close> matches the lower-case letters too.
\<close>

definition main_note_pattern :: rx where
  "main_note_pattern =
     cats [Alt Bol (Cls is_newline), Rep is_space 0 None, lit_ignorecase ''NOTE'',
           Rep is_space 1 None, Grp 1 (Rep is_digit 1 None), Rep is_space 0 None,
           Rep is_dash 0 None, Rep is_space 0 None,
           Grp 2 (Cat (Cls is_alpha_az) (Rep is_title_char 0 None))]"

text \<open>
  \<open>NoteParser.sub_note_pattern\<close>, flag \<open>MULTILINE\<close>:
  \<^verbatim>\<open>(?:^|\n)\s*(\d+)\.(\d+)\s+([A-Z][A-Za-z\s,&\(\)]*)\<close>.
\<close>

definition sub_note_pattern :: rx where
  "sub_note_pattern =
     cats [Alt Bol (Cls is_newline), Rep is_space 0 None, Grp 1 (Rep is_digit 1 None),
           Cls (\<lambda>c. c = CHR ''.''), Grp 2 (Rep is_digit 1 None), Rep is_space 1 None,
           Grp 3 (Cat (Cls is_upper_az) (Rep is_title_char 0 None))]"

text \<open>
  \<open>NoteParser.sub_section_pattern\<close>, flag \<open>MULTILINE\<close>:
  \<^verbatim>\<open>(?:^|\n)\s*\(([a-z])\)\s+([A-Z][A-Za-z\s,&\(\)]*)\<close>.
\<close>

definition sub_section_pattern :: rx where
  "sub_section_pattern =
     cats [Alt Bol (Cls is_newline), Rep is_space 0 None, Cls (\<lambda>c. c = CHR ''(''),
           Grp 1 (Cls is_lower_az), Cls (\<lambda>c. c = CHR '')''), Rep is_space 1 None,
           Grp 2 (Cat (Cls is_upper_az) (Rep is_title_char 0 None))]"

text \<open>
  \<open>AdaptiveChunker.table_pattern\<close>, flag \<open>MULTILINE\<close>:
  \<^verbatim>\<open>(?:^|\n)(?:\s*\|.*\|.*$|\s*[-+]+\s*$)\<close>; the dot matches every character but the
  newline.
\<close>

definition table_pattern :: rx where
  "table_pattern =
     Cat (Alt Bol (Cls is_newline))
       (Alt (cats [Rep is_space 0 None, Cls (\<lambda>c. c = CHR ''|''),
                   Rep (\<lambda>c. \<not> is_newline c) 0 None, Cls (\<lambda>c. c = CHR ''|''),
                   Rep (\<lambda>c. \<not> is_newline c) 0 None, Eol])
            (cats [Rep is_space 0 None, Rep (\<lambda>c. c = CHR ''-'' \<or> c = CHR ''+'') 1 None,
                   Rep is_space 0 None, Eol]))"

text \<open>
  \<open>AdaptiveChunker.list_pattern\<close>, flag \<open>MULTILINE\<close>:
  \<^verbatim>\<open>(?:^|\n)\s*(?:\d+\.|[...\-\*])\s+\<close>.
\<close>

definition list_pattern :: rx where
  "list_pattern =
     cats [Alt Bol (Cls is_newline), Rep is_space 0 None,
           Alt (Cat (Rep is_digit 1 None) (Cls (\<lambda>c. c = CHR ''.''))) (Cls is_bullet),
           Rep is_space 1 None]"

text \<open>
  \<open>AdaptiveChunker.heading_pattern\<close>, flag \<open>MULTILINE\<close>:
  \<^verbatim>\<open>^[A-Z\s]{10,}$|^NOTE\s+\d+\<close>.
\<close>

definition heading_pattern :: rx where
  "heading_pattern =
     Alt (cats [Bol, Rep (\<lambda>c. is_upper_az c \<or> is_space c) 10 None, Eol])
         (cats [Bol, lit ''NOTE'', Rep is_space 1 None, Rep is_digit 1 None])"

text \<open>The pattern of \<open>_extract_elements\<close>, no flags: \<^verbatim>\<open>\n\s*\n\<close>.\<close>

definition element_split_pattern :: rx where
  "element_split_pattern = cats [Cls is_newline, Rep is_space 0 None, Cls is_newline]"

text \<open>The pattern of \<open>_chunk_paragraph\<close>, no flags: \<^verbatim>\<open>(?<=[.!?])\s+\<close>.\<close>

definition sentence_split_pattern :: rx where
  "sentence_split_pattern = Cat (Behind is_sentence_end) (Rep is_space 1 None)"

text \<open>
  The pattern of \<open>_chunk_list\<close>, no flags:
  \<^verbatim>\<open>(?=(?:^|\n)\s*(?:\d+\.|[...\-\*])\s+)\<close>.
\<close>

definition item_split_pattern :: rx where
  "item_split_pattern =
     Ahead (cats [Alt Bos (Cls is_newline), Rep is_space 0 None,
                  Alt (Cat (Rep is_digit 1 None) (Cls (\<lambda>c. c = CHR ''.''))) (Cls is_bullet),
                  Rep is_space 1 None])"

section \<open>Retrieval results (retrieval_types.py)\<close>

text \<open>
  The dataclass \<open>RetrievalResult\<close>. Three of its fields share their names with fields of
  \<open>Chunk\<close> and carry the prefix \<open>result_\<close> here. The score is a Python float.
\<close>

record RetrievalResult =
  chunk_id :: string
  chunk_text :: string
  result_chunk_type :: string
  section_types :: "string list"
  result_note_number :: "string option"
  result_page_numbers :: "int list"
  score :: pyfloat
  retrieval_tier :: string

text \<open>
  \<open>sorted(results, key=lambda x: x.score, reverse=True)\<close> and \<open>list.sort\<close> with the same
  arguments: the keys are the scores, compared with the \<open><\<close> of floats.
\<close>

definition sort_by_score_desc :: "RetrievalResult list \<Rightarrow> RetrievalResult list" where
  "sort_by_score_desc results = py_sorted (\<lambda>a b. float_lt (score a) (score b)) True results"

section \<open>Deduplication (deduplication_utils.py)\<close>

text \<open>
  \<open>difflib.SequenceMatcher(None, a, b).ratio()\<close> belongs to the Python library, not to the
  repository: it is the parameter \<open>ratio\<close>; it returns a float, which \<open>>=\<close> compares with the
  threshold. The inner loop of \<open>deduplicate_by_similarity\<close>
  sets \<open>is_duplicate\<close> at the first seen text whose similarity reaches the threshold.
\<close>

definition is_duplicate ::
  "(string \<Rightarrow> string \<Rightarrow> pyfloat) \<Rightarrow> pyfloat \<Rightarrow> RetrievalResult \<Rightarrow> string list \<Rightarrow> bool" where
  "is_duplicate ratio similarity_threshold result seen_texts =
     list_ex (\<lambda>seen_text.
        float_ge (ratio (strip (lower (chunk_text result))) (strip (lower seen_text)))
          similarity_threshold)
       seen_texts"

text \<open>The outer loop, with its two accumulators and the \<open>break\<close> on \<open>max_chunks\<close>.\<close>

fun dedup_loop ::
  "(string \<Rightarrow> string \<Rightarrow> pyfloat) \<Rightarrow> pyfloat \<Rightarrow> int \<Rightarrow> RetrievalResult list \<Rightarrow>
   RetrievalResult list \<Rightarrow> string list \<Rightarrow> RetrievalResult list" where
  "dedup_loop ratio thr max_chunks [] deduplicated seen_texts = deduplicated"
| "dedup_loop ratio thr max_chunks (result # rest) deduplicated seen_texts =
     (if is_duplicate ratio thr result seen_texts
      then dedup_loop ratio thr max_chunks rest deduplicated seen_texts
      else if int (length (deduplicated @ [result])) \<ge> max_chunks
           then deduplicated @ [result]
           else dedup_loop ratio thr max_chunks rest
                  (deduplicated @ [result]) (seen_texts @ [chunk_text result]))"

definition deduplicate_by_similarity ::
  "(string \<Rightarrow> string \<Rightarrow> pyfloat) \<Rightarrow> RetrievalResult list \<Rightarrow> pyfloat \<Rightarrow> int \<Rightarrow> RetrievalResult list" where
  "deduplicate_by_similarity ratio results similarity_threshold max_chunks =
     (if results = [] then []
      else dedup_loop ratio similarity_threshold max_chunks (sort_by_score_desc results) [] [])"

text \<open>
  \<open>filter_by_page_diversity\<close>: \<open>page_counts\<close> is a dict from page number to count; a page seen
  for the first time is entered with count 0 before the test.
\<close>

definition primary_page :: "RetrievalResult \<Rightarrow> int option" where
  "primary_page result =
     (case result_page_numbers result of [] \<Rightarrow> None | p # _ \<Rightarrow> Some p)"

fun diversity_loop ::
  "int \<Rightarrow> RetrievalResult list \<Rightarrow> (int \<rightharpoonup> int) \<Rightarrow> RetrievalResult list \<Rightarrow> RetrievalResult list" where
  "diversity_loop max_per_page [] page_counts filtered = filtered"
| "diversity_loop max_per_page (result # rest) page_counts filtered =
     (case primary_page result of
        None \<Rightarrow> diversity_loop max_per_page rest page_counts (filtered @ [result])
      | Some p \<Rightarrow>
          (let page_counts1 =
                 (if page_counts p = None then page_counts(p \<mapsto> 0) else page_counts);
               n = (case page_counts1 p of None \<Rightarrow> 0 | Some k \<Rightarrow> k)
           in if n < max_per_page
              then diversity_loop max_per_page rest (page_counts1(p \<mapsto> n + 1)) (filtered @ [result])
              else diversity_loop max_per_page rest page_counts1 filtered))"

definition filter_by_page_diversity :: "RetrievalResult list \<Rightarrow> int \<Rightarrow> RetrievalResult list" where
  "filter_by_page_diversity results max_per_page =
     (if results = [] then [] else diversity_loop max_per_page results Map.empty [])"

definition smart_deduplicate ::
  "(string \<Rightarrow> string \<Rightarrow> pyfloat) \<Rightarrow> RetrievalResult list \<Rightarrow> pyfloat \<Rightarrow> int \<Rightarrow> int \<Rightarrow>
   RetrievalResult list" where
  "smart_deduplicate ratio results similarity_threshold max_chunks max_per_page =
     (if results = [] then []
      else py_take max_chunks
             (filter_by_page_diversity
                (deduplicate_by_similarity ratio results similarity_threshold (max_chunks * 2))
                max_per_page))"

section \<open>Hybrid retrieval (hybrid_retrieval.py)\<close>

subsection \<open>Collaborators\<close>

text \<open>
  The embedding service and the database are outside the repository. A call to one of them
  either returns or raises; an exception is the value \<open>Inl\<close> of a sum. \<open>embed_single\<close>
  catches every exception itself and reports failure in the \<open>success\<close> flag of its result.
  The two SQL statements of the engine are two oracles: \<open>vector_query\<close> stands for
  \<open>cursor.execute\<close> and \<open>fetchall\<close> on the similarity query, \<open>keyword_query\<close> for the same on
  the full-text query; each receives the parameters the source binds. \<open>ensure_connection\<close>
  stands for \<open>_ensure_connection\<close>, which raises when the reconnect fails. The field
  \<open>text\<close> of \<open>EmbeddingResult\<close> is not read by the engine and is left out. A row carries
  the columns the engine reads; the computed column (\<open>similarity\<close> or \<open>rank\<close>) is a float
  or the SQL null, and so are the two array columns and \<open>note_number\<close>.
\<close>

datatype exn = BackendError string | TypeError string

record EmbeddingResult =
  embedding :: "pyfloat list"
  success :: bool
  error :: "string option"

record chunk_row =
  row_chunk_id :: string
  row_chunk_text :: string
  row_chunk_type :: string
  row_section_types :: "string list option"
  row_note_number :: "string option"
  row_page_numbers :: "int list option"
  row_value :: "pyfloat option"

record backends =
  ensure_connection :: "exn option"
  embed_single :: "string \<Rightarrow> EmbeddingResult"
  vector_query ::
    "pyfloat list \<Rightarrow> string \<Rightarrow> string list option \<Rightarrow> string option \<Rightarrow> string option \<Rightarrow> int \<Rightarrow>
     exn + chunk_row list"
  keyword_query ::
    "string \<Rightarrow> string \<Rightarrow> string list option \<Rightarrow> string option \<Rightarrow> string option \<Rightarrow> int \<Rightarrow>
     exn + chunk_row list"

text \<open>
  A filter is added to the SQL only when it is truthy: \<open>None\<close>, an empty list and an empty
  string add nothing.
\<close>

definition truthy :: "'a list option \<Rightarrow> 'a list option" where
  "truthy v = (case v of None \<Rightarrow> None | Some xs \<Rightarrow> if xs = [] then None else Some xs)"

text \<open>
  The row-to-result conversion; \<open>x or []\<close> replaces a null array by the empty list, and
  \<open>float(None)\<close> raises \<open>TypeError\<close>. The loop over the rows stops at the first row that
  raises.
\<close>

definition to_float :: "pyfloat option \<Rightarrow> exn + pyfloat" where
  "to_float v =
     (case v of
        None \<Rightarrow> Inl (TypeError ''float() argument must be a string or a real number'')
      | Some x \<Rightarrow> Inr x)"

definition row_to_result :: "string \<Rightarrow> chunk_row \<Rightarrow> exn + RetrievalResult" where
  "row_to_result tier row =
     (case to_float (row_value row) of
        Inl e \<Rightarrow> Inl e
      | Inr s \<Rightarrow>
          Inr \<lparr>chunk_id = row_chunk_id row,
               chunk_text = row_chunk_text row,
               result_chunk_type = row_chunk_type row,
               section_types = (case truthy (row_section_types row) of None \<Rightarrow> [] | Some xs \<Rightarrow> xs),
               result_note_number = row_note_number row,
               result_page_numbers = (case truthy (row_page_numbers row) of None \<Rightarrow> [] | Some xs \<Rightarrow> xs),
               score = s,
               retrieval_tier = tier\<rparr>)"

fun rows_to_results :: "string \<Rightarrow> chunk_row list \<Rightarrow> exn + RetrievalResult list" where
  "rows_to_results tier [] = Inr []"
| "rows_to_results tier (row # rows) =
     (case row_to_result tier row of
        Inl e \<Rightarrow> Inl e
      | Inr result \<Rightarrow>
          (case rows_to_results tier rows of
             Inl e \<Rightarrow> Inl e
           | Inr results \<Rightarrow> Inr (result # results)))"

subsection \<open>Tier 1 and tier 2\<close>

text \<open>
  \<open>_vector_search\<close> returns the empty list when the embedding fails; its database call and
  its conversion loop are not inside a \<open>try\<close>, so an exception of the vector index or of
  the conversion leaves the function.
\<close>

definition vector_search ::
  "backends \<Rightarrow> string \<Rightarrow> string \<Rightarrow> int \<Rightarrow> string list option \<Rightarrow> string option \<Rightarrow>
   string option \<Rightarrow> exn + RetrievalResult list" where
  "vector_search env query company_id top_k section_filters statement_type note_number =
     (let embedding_result = embed_single env query in
      if \<not> success embedding_result then Inr []
      else
        (case vector_query env (embedding embedding_result) company_id (truthy section_filters)
                (truthy statement_type) (truthy note_number) top_k of
           Inl e \<Rightarrow> Inl e
         | Inr rows \<Rightarrow> rows_to_results ''vector'' rows))"

text \<open>
  \<open>_keyword_search\<close> runs its database call and the conversion inside
  \<open>try ... except Exception\<close> and returns the empty list from the handler.
\<close>

definition keyword_search ::
  "backends \<Rightarrow> string \<Rightarrow> string \<Rightarrow> int \<Rightarrow> string list option \<Rightarrow> string option \<Rightarrow>
   string option \<Rightarrow> RetrievalResult list" where
  "keyword_search env query company_id top_k section_filters statement_type note_number =
     (case keyword_query env query company_id (truthy section_filters)
             (truthy statement_type) (truthy note_number) top_k of
        Inl e \<Rightarrow> []
      | Inr rows \<Rightarrow>
          (case rows_to_results ''keyword'' rows of Inl e \<Rightarrow> [] | Inr results \<Rightarrow> results))"

subsection \<open>Merge\<close>

fun merge_loop ::
  "RetrievalResult list \<Rightarrow> string set \<Rightarrow> RetrievalResult list \<Rightarrow> string set \<times> RetrievalResult list" where
  "merge_loop [] seen_chunk_ids merged = (seen_chunk_ids, merged)"
| "merge_loop (result # rest) seen_chunk_ids merged =
     (if chunk_id result \<notin> seen_chunk_ids
      then merge_loop rest (insert (chunk_id result) seen_chunk_ids) (merged @ [result])
      else merge_loop rest seen_chunk_ids merged)"

definition merge_results :: "RetrievalResult list \<Rightarrow> RetrievalResult list \<Rightarrow> RetrievalResult list" where
  "merge_results vector_results keyword_results =
     (let (seen1, merged1) = merge_loop vector_results {} [];
          (seen2, merged2) = merge_loop keyword_results seen1 merged1
      in merged2)"

subsection \<open>Tier 3: re-ranking\<close>

text \<open>
  Python's \<open>needle in haystack\<close> on strings is \<open>sublist needle haystack\<close>. The hints are a
  list; \<open>section_filters\<close> is appended when it is neither \<open>None\<close> nor empty.
\<close>

definition query_section_hints :: "string \<Rightarrow> string list option \<Rightarrow> string list" where
  "query_section_hints query section_filters =
     (let query_lower = lower query in
      (if sublist ''fair value'' query_lower then [''fair_value''] else []) @
      (if sublist ''investment propert'' query_lower then [''investment_property''] else []) @
      (if sublist ''balance sheet'' query_lower then [''balance_sheet''] else []) @
      (if sublist ''income statement'' query_lower \<or> sublist ''profit'' query_lower
       then [''income_statement''] else []) @
      (if sublist ''cash flow'' query_lower then [''cash_flow''] else []) @
      (if sublist ''note'' query_lower then [''notes''] else []) @
      (if sublist ''borrowing'' query_lower \<or> sublist ''debt'' query_lower
       then [''borrowings''] else []) @
      (if sublist ''equity'' query_lower then [''equity''] else []) @
      (case truthy section_filters of None \<Rightarrow> [] | Some fs \<Rightarrow> fs))"

text \<open>
  The inner loop counts the entries of \<open>section_types\<close> found among the hints. The boost is
  the float expression \<open>1.0 + (section_match_count * 0.2)\<close>, and \<open>result.score *= boost\<close>
  is a float multiplication.
\<close>

definition section_match_count :: "string list \<Rightarrow> RetrievalResult \<Rightarrow> int" where
  "section_match_count hints result =
     foldl (\<lambda>n section_type. if section_type \<in> set hints then n + 1 else n)
       0 (section_types result)"

definition rerank_result :: "string list \<Rightarrow> RetrievalResult \<Rightarrow> RetrievalResult" where
  "rerank_result hints result =
     (if section_match_count hints result > 0
      then (let boost = float_add (float_literal 1)
                          (float_mul (float_of_int (section_match_count hints result))
                             (float_literal (2 / 10)))
            in result\<lparr>score := float_mul (score result) boost,
                      retrieval_tier := ''re-ranked''\<rparr>)
      else result)"

text \<open>
  The source updates the results in place and sorts the list in place; the model returns
  the updated, sorted list.
\<close>

definition rerank_by_classification ::
  "RetrievalResult list \<Rightarrow> string \<Rightarrow> string list option \<Rightarrow> RetrievalResult list" where
  "rerank_by_classification results query section_filters =
     sort_by_score_desc (map (rerank_result (query_section_hints query section_filters)) results)"

subsection \<open>The pipeline\<close>

text \<open>
  \<open>retrieve\<close>. Its parameter \<open>min_vector_results\<close> is read nowhere in the body and is left
  out. \<open>reranked[:top_k]\<close> is \<open>py_take\<close>.
\<close>

definition retrieve ::
  "backends \<Rightarrow> (string \<Rightarrow> string \<Rightarrow> pyfloat) \<Rightarrow> string \<Rightarrow> string \<Rightarrow> int \<Rightarrow> string list option \<Rightarrow>
   string option \<Rightarrow> string option \<Rightarrow> bool \<Rightarrow> pyfloat \<Rightarrow> exn + RetrievalResult list" where
  "retrieve env ratio query company_id top_k section_filters statement_type note_number
     enable_deduplication similarity_threshold =
     (case ensure_connection env of
        Some e \<Rightarrow> Inl e
      | None \<Rightarrow>
        (case vector_search env query company_id (top_k * 3) section_filters statement_type
                note_number of
           Inl e \<Rightarrow> Inl e
         | Inr vector_results \<Rightarrow>
             (let keyword_results =
                    keyword_search env query company_id (top_k * 2) section_filters
                      statement_type note_number;
                  combined = merge_results vector_results keyword_results;
                  reranked = rerank_by_classification combined query section_filters
              in if enable_deduplication
                 then Inr (smart_deduplicate ratio reranked similarity_threshold top_k 2)
                 else Inr (py_take top_k reranked))))"

section \<open>Note boundaries and note hierarchy (NoteParser)\<close>

text \<open>
  The parser returns dicts. A dict with the keys \<open>start_pos\<close> and \<open>end_pos\<close> is a \<open>span\<close>,
  extended by the other keys; \<open>end_pos\<close> is \<open>None\<close> until the second loop sets it. The keys
  that share a name with a field of \<open>Chunk\<close> carry a prefix.
\<close>

record span =
  start_pos :: nat
  end_pos :: "nat option"

record note_boundary = span +
  nb_note_number :: string
  nb_note_title :: string
  nb_match_start :: nat

record sub_note_info = span +
  sn_sub_note :: string
  sn_title :: string
  sn_match_start :: nat

record sub_section_entry =
  hs_sub_section :: string
  hs_title :: string
  hs_start_pos :: nat
  hs_match_start :: nat

record hierarchy =
  sub_notes :: "sub_note_info list"
  sub_sections :: "sub_section_entry list"

text \<open>
  The loop that sets the end positions, as the source writes it three times:
  \<^verbatim>\<open>for i in range(len(bs)): bs[i]['end_pos'] = bs[i+1]['start_pos'] if i < len(bs)-1 else n\<close>.
\<close>

definition set_end_step :: "nat \<Rightarrow> 'a span_scheme list \<Rightarrow> nat \<Rightarrow> 'a span_scheme list" where
  "set_end_step n bs i =
     bs[i := (bs ! i)\<lparr>end_pos :=
               Some (if i < length bs - 1 then start_pos (bs ! (i + 1)) else n)\<rparr>]"

definition set_end_positions :: "nat \<Rightarrow> 'a span_scheme list \<Rightarrow> 'a span_scheme list" where
  "set_end_positions n bs = foldl (set_end_step n) bs [0 ..< length bs]"

text \<open>Python's slice \<open>s[a:b]\<close> for non-negative \<open>a\<close> and \<open>b\<close>; \<open>b = None\<close> is \<open>s[a:]\<close>.\<close>

definition slice :: "string \<Rightarrow> nat \<Rightarrow> nat option \<Rightarrow> string" where
  "slice s a b = (case b of None \<Rightarrow> drop a s | Some e \<Rightarrow> take (e - a) (drop a s))"

text \<open>
  \<open>str.replace(old, new)\<close>: the occurrences of \<open>old\<close> are replaced from left to right,
  without overlap.
\<close>

function str_replace :: "string \<Rightarrow> string \<Rightarrow> string \<Rightarrow> string" where
  "str_replace old new [] = (if old = [] then new else [])"
| "str_replace old new (c # cs) =
     (if old = [] then new @ c # str_replace old new cs
      else if prefix old (c # cs) then new @ str_replace old new (drop (length old) (c # cs))
      else c # str_replace old new cs)"
  by pat_completeness auto
termination
  by (relation "measure (\<lambda>(old, new, s). length s)") auto

definition detect_note_boundaries :: "string \<Rightarrow> note_boundary list" where
  "detect_note_boundaries txt =
     set_end_positions (length txt)
       (map (\<lambda>m. \<lparr>start_pos = m_start m, end_pos = None,
                   nb_note_number = ''Note '' @ group m 1,
                   nb_note_title = strip (group m 2),
                   nb_match_start = m_start m\<rparr>)
          (finditer main_note_pattern txt))"

text \<open>
  \<open>parse_note_hierarchy\<close>: a match of the sub-note pattern is appended only when its first
  group equals \<open>main_num\<close>, the note number without its prefix \<open>Note\<close>.
\<close>

definition sub_note_loop :: "string \<Rightarrow> re_match list \<Rightarrow> sub_note_info list" where
  "sub_note_loop main_num matches =
     foldl (\<lambda>acc m.
              if group m 1 = main_num
              then acc @ [\<lparr>start_pos = m_start m, end_pos = None,
                           sn_sub_note = group m 1 @ ''.'' @ group m 2,
                           sn_title = strip (group m 3),
                           sn_match_start = m_start m\<rparr>]
              else acc)
       [] matches"

definition parse_note_hierarchy :: "string \<Rightarrow> string \<Rightarrow> hierarchy" where
  "parse_note_hierarchy note_text note_number =
     (let main_num = str_replace ''Note '' [] note_number in
      \<lparr>sub_notes =
         set_end_positions (length note_text)
           (sub_note_loop main_num (finditer sub_note_pattern note_text)),
       sub_sections =
         map (\<lambda>m. \<lparr>hs_sub_section = ''('' @ group m 1 @ '')'',
                     hs_title = (if group m 2 \<noteq> [] then strip (group m 2) else []),
                     hs_start_pos = m_start m,
                     hs_match_start = m_start m\<rparr>)
           (finditer sub_section_pattern note_text)\<rparr>)"

section \<open>The adaptive chunker (adaptive_chunker.py)\<close>

text \<open>
  The dataclass \<open>Chunk\<close>; its field \<open>text\<close> is \<open>text'\<close> here. The fields \<open>content_types\<close>,
  \<open>has_subjective\<close> and \<open>has_objective\<close> are labels that \<open>detect_content_types\<close> computes from a
  finished fragment; they influence neither the text of a chunk nor where the text is split,
  and they are not part of the model.
\<close>

record Chunk =
  text' :: string
  chunk_type :: string
  page_numbers :: "int list"
  char_count :: int
  is_critical :: bool
  note_number :: "string option"
  sub_note :: "string option"
  sub_section :: "string option"
  sub_sub_section :: "string option"
  note_title :: "string option"
  hierarchy_level :: int
  parent_note :: "string option"
  is_complete_note :: bool

text \<open>\<open>Chunk(text, chunk_type, page_numbers, char_count, is_critical)\<close> with the defaults.\<close>

definition new_chunk :: "string \<Rightarrow> string \<Rightarrow> int list \<Rightarrow> int \<Rightarrow> bool \<Rightarrow> Chunk" where
  "new_chunk txt ctype pages n critical =
     \<lparr>text' = txt, chunk_type = ctype, page_numbers = pages, char_count = n,
      is_critical = critical, note_number = None, sub_note = None, sub_section = None,
      sub_sub_section = None, note_title = None, hierarchy_level = 0, parent_note = None,
      is_complete_note = False\<rparr>"

subsection \<open>The classifier's critical-paragraph test (universal_classifier.py)\<close>

definition critical_keywords :: "string list" where
  "critical_keywords =
     [''fair value'', ''investment propert'', ''as at march 31'', ''as at'', ''carrying amount'',
      ''note:'', ''note '', ''significant accounting'', ''the group's investment'',
      ''the company's investment'', ''determined based on'', ''fair values of the properties'',
      ''properties are inr'']"

definition is_critical_paragraph :: "string \<Rightarrow> bool" where
  "is_critical_paragraph txt =
     (let text_lower = lower txt in list_ex (\<lambda>keyword. sublist keyword text_lower) critical_keywords)"

subsection \<open>Elements\<close>

record element =
  e_type :: string
  e_text :: string
  e_page_num :: int

definition classify_element_type :: "string \<Rightarrow> string" where
  "classify_element_type txt =
     (let text_strip = strip txt in
      if length text_strip < 100 \<and> re_search heading_pattern text_strip then ''heading''
      else if re_search table_pattern text_strip then ''table''
      else if re_search list_pattern text_strip then ''list''
      else ''paragraph'')"

definition extract_elements :: "string \<Rightarrow> int \<Rightarrow> element list" where
  "extract_elements txt page_num =
     map (\<lambda>sec. \<lparr>e_type = classify_element_type sec, e_text = strip sec, e_page_num = page_num\<rparr>)
       (filter (\<lambda>sec. strip sec \<noteq> []) (re_split element_split_pattern txt))"

subsection \<open>Paragraphs and lists\<close>

text \<open>\<open>list.index\<close>: the position of the first equal entry.\<close>

definition index_of :: "'a list \<Rightarrow> 'a \<Rightarrow> nat" where
  "index_of xs x = length (takeWhile (\<lambda>y. y \<noteq> x) xs)"

text \<open>
  The loop of \<open>_chunk_paragraph\<close> over the sentences, with its state \<open>chunks\<close>,
  \<open>current_chunk\<close>, \<open>current_size\<close>. \<open>sentences\<close> is the whole list, which the overlap
  branch reads through \<open>sentences.index(sentence)\<close>.
\<close>

fun paragraph_loop ::
  "int \<Rightarrow> int \<Rightarrow> string list \<Rightarrow> string list \<Rightarrow> Chunk list \<Rightarrow> string \<Rightarrow> int \<Rightarrow>
   Chunk list \<times> string \<times> int" where
  "paragraph_loop max_chunk_size page_num sentences [] chunks current_chunk current_size =
     (chunks, current_chunk, current_size)"
| "paragraph_loop max_chunk_size page_num sentences (sentence # others) chunks current_chunk
     current_size =
     (let sentence_len = int (length sentence) in
      if current_size + sentence_len \<le> max_chunk_size
      then paragraph_loop max_chunk_size page_num sentences others chunks
             (current_chunk @ sentence @ '' '') (current_size + sentence_len + 1)
      else
        (let chunks1 =
               (if strip current_chunk \<noteq> []
                then chunks @ [new_chunk (strip current_chunk) ''paragraph'' [page_num]
                                 (int (length (strip current_chunk))) False]
                else chunks)
         in if chunks1 \<noteq> []
            then
              (let last_sentence =
                     (if index_of sentences sentence > 0
                      then sentences ! (index_of sentences sentence - 1) else [])
               in paragraph_loop max_chunk_size page_num sentences others chunks1
                    (last_sentence @ '' '' @ sentence @ '' '')
                    (int (length last_sentence) + sentence_len + 2))
            else paragraph_loop max_chunk_size page_num sentences others chunks1
                   (sentence @ '' '') (sentence_len + 1)))"

definition chunk_paragraph :: "int \<Rightarrow> string \<Rightarrow> int \<Rightarrow> Chunk list" where
  "chunk_paragraph max_chunk_size txt page_num =
     (let sentences = re_split sentence_split_pattern txt;
          (chunks, current_chunk, current_size) =
             paragraph_loop max_chunk_size page_num sentences sentences [] [] 0;
          chunks1 =
             (if strip current_chunk \<noteq> []
              then chunks @ [new_chunk (strip current_chunk) ''paragraph'' [page_num]
                               (int (length (strip current_chunk))) False]
              else chunks)
      in if chunks1 \<noteq> [] then chunks1
         else [new_chunk txt ''paragraph'' [page_num] (int (length txt)) False])"

fun list_loop ::
  "int \<Rightarrow> int \<Rightarrow> string list \<Rightarrow> Chunk list \<Rightarrow> string \<Rightarrow> int \<Rightarrow> Chunk list \<times> string \<times> int" where
  "list_loop max_chunk_size page_num [] chunks current_chunk current_size =
     (chunks, current_chunk, current_size)"
| "list_loop max_chunk_size page_num (item # others) chunks current_chunk current_size =
     (let item_len = int (length item) in
      if current_size + item_len \<le> max_chunk_size
      then list_loop max_chunk_size page_num others chunks
             (current_chunk @ item @ [CHR 0x0A]) (current_size + item_len + 1)
      else
        (let chunks1 =
               (if strip current_chunk \<noteq> []
                then chunks @ [new_chunk (strip current_chunk) ''list'' [page_num]
                                 (int (length (strip current_chunk))) False]
                else chunks)
         in list_loop max_chunk_size page_num others chunks1 (item @ [CHR 0x0A]) (item_len + 1)))"

definition chunk_list :: "int \<Rightarrow> string \<Rightarrow> int \<Rightarrow> Chunk list" where
  "chunk_list max_chunk_size txt page_num =
     (let items = map strip (filter (\<lambda>item. strip item \<noteq> [])
                                (re_split item_split_pattern txt));
          (chunks, current_chunk, current_size) =
             list_loop max_chunk_size page_num items [] [] 0;
          chunks1 =
             (if strip current_chunk \<noteq> []
              then chunks @ [new_chunk (strip current_chunk) ''list'' [page_num]
                               (int (length (strip current_chunk))) False]
              else chunks)
      in if chunks1 \<noteq> [] then chunks1
         else [new_chunk txt ''list'' [page_num] (int (length txt)) False])"

subsection \<open>One element\<close>

definition chunk_element :: "int \<Rightarrow> element \<Rightarrow> int \<Rightarrow> Chunk list" where
  "chunk_element max_chunk_size el page_num =
     (let element_type = e_type el; txt = e_text el in
      if element_type = ''table''
      then [new_chunk txt ''table'' [page_num] (int (length txt)) True]
      else if element_type = ''paragraph'' \<and> is_critical_paragraph txt
      then [new_chunk txt ''paragraph'' [page_num] (int (length txt)) True]
      else if element_type = ''heading''
      then [new_chunk txt ''heading'' [page_num] (int (length txt)) True]
      else if element_type = ''list''
      then (if int (length txt) \<le> max_chunk_size
            then [new_chunk txt ''list'' [page_num] (int (length txt)) False]
            else chunk_list max_chunk_size txt page_num)
      else if int (length txt) \<le> max_chunk_size
      then [new_chunk txt ''paragraph'' [page_num] (int (length txt)) False]
      else chunk_paragraph max_chunk_size txt page_num)"

subsection \<open>One note\<close>

text \<open>
  The parameters \<open>note_number\<close>, \<open>note_title\<close>, \<open>page_numbers\<close> and \<open>sub_note\<close> of the source
  are \<open>note_num\<close>, \<open>title\<close>, \<open>pages\<close> and \<open>sub_note_id\<close> here, since the field names of
  \<open>Chunk\<close> are taken. \<open>page_numbers[0] if page_numbers else 1\<close> is \<open>first_page\<close>.
\<close>

definition first_page :: "int list \<Rightarrow> int" where
  "first_page pages = (case pages of [] \<Rightarrow> 1 | p # _ \<Rightarrow> p)"

record sub_section_span = span +
  ss_sub_section :: string

definition chunk_note_subsections ::
  "int \<Rightarrow> string \<Rightarrow> string \<Rightarrow> string \<Rightarrow> string \<Rightarrow> int list \<Rightarrow> Chunk list" where
  "chunk_note_subsections max_chunk_size txt parent_header note_num sub_note_id pages =
     (let found =
            map (\<lambda>m. \<lparr>start_pos = m_start m, end_pos = None,
                       ss_sub_section = ''('' @ group m 1 @ '')''\<rparr>)
              (finditer sub_section_pattern txt)
      in if found \<noteq> []
         then
           map (\<lambda>sub_sec_info.
                  (let sub_sec_text =
                         strip (slice txt (start_pos sub_sec_info) (end_pos sub_sec_info));
                       full_text = parent_header @ sub_sec_text
                   in \<lparr>text' = full_text, chunk_type = ''note_section'', page_numbers = pages,
                       char_count = int (length full_text), is_critical = True,
                       note_number = Some note_num, sub_note = Some sub_note_id,
                       sub_section = Some (ss_sub_section sub_sec_info),
                       sub_sub_section = None, note_title = None, hierarchy_level = 2,
                       parent_note = Some note_num, is_complete_note = False\<rparr>))
             (set_end_positions (length txt) found)
         else
           (let full_text = parent_header @ txt in
            if int (length full_text) > max_chunk_size * 2
            then
              map (\<lambda>pc. pc\<lparr>note_number := Some note_num, sub_note := Some sub_note_id,
                            parent_note := Some note_num, hierarchy_level := 2,
                            chunk_type := ''note_paragraph''\<rparr>)
                (chunk_paragraph max_chunk_size txt (first_page pages))
            else
              [\<lparr>text' = full_text, chunk_type = ''note_section'', page_numbers = pages,
                char_count = int (length full_text), is_critical = True,
                note_number = Some note_num, sub_note = Some sub_note_id, sub_section = None,
                sub_sub_section = None, note_title = None, hierarchy_level = 1,
                parent_note = Some note_num, is_complete_note = False\<rparr>]))"

definition mixed_chunk :: "string \<Rightarrow> string \<Rightarrow> string \<Rightarrow> int list \<Rightarrow> Chunk" where
  "mixed_chunk current_chunk_text note_num title pages =
     \<lparr>text' = strip current_chunk_text, chunk_type = ''note_mixed'', page_numbers = pages,
      char_count = int (length (strip current_chunk_text)), is_critical = True,
      note_number = Some note_num, sub_note = None, sub_section = None, sub_sub_section = None,
      note_title = Some title, hierarchy_level = 0, parent_note = Some note_num,
      is_complete_note = False\<rparr>"

text \<open>
  The loop of \<open>_chunk_large_note_by_elements\<close>, with its state \<open>chunks\<close>,
  \<open>current_chunk_text\<close>, \<open>current_chunk_elements\<close>.
\<close>

fun large_note_loop ::
  "int \<Rightarrow> string \<Rightarrow> string \<Rightarrow> string \<Rightarrow> int list \<Rightarrow> element list \<Rightarrow> Chunk list \<Rightarrow> string \<Rightarrow>
   string list \<Rightarrow> Chunk list \<times> string \<times> string list" where
  "large_note_loop max_chunk_size note_header note_num title pages [] chunks current_chunk_text
     current_chunk_elements = (chunks, current_chunk_text, current_chunk_elements)"
| "large_note_loop max_chunk_size note_header note_num title pages (el # others) chunks
     current_chunk_text current_chunk_elements =
     (if int (length current_chunk_text) + int (length (e_text el)) > max_chunk_size \<and>
         current_chunk_elements \<noteq> []
      then large_note_loop max_chunk_size note_header note_num title pages others
             (chunks @ [mixed_chunk current_chunk_text note_num title pages])
             (note_header @ [CHR 0x0A, CHR 0x0A] @ e_text el) [e_type el]
      else large_note_loop max_chunk_size note_header note_num title pages others chunks
             (current_chunk_text @ [CHR 0x0A, CHR 0x0A] @ e_text el)
             (current_chunk_elements @ [e_type el]))"

definition chunk_large_note_by_elements ::
  "int \<Rightarrow> string \<Rightarrow> string \<Rightarrow> string \<Rightarrow> string \<Rightarrow> int list \<Rightarrow> Chunk list" where
  "chunk_large_note_by_elements max_chunk_size note_text note_header note_num title pages =
     (let elements = extract_elements note_text (first_page pages);
          (chunks, current_chunk_text, current_chunk_elements) =
             large_note_loop max_chunk_size note_header note_num title pages elements []
               note_header [];
          chunks1 =
             (if strip current_chunk_text \<noteq> strip note_header
              then chunks @ [mixed_chunk current_chunk_text note_num title pages]
              else chunks)
      in if chunks1 \<noteq> [] then chunks1
         else [\<lparr>text' = note_header @ note_text, chunk_type = ''note_complete'',
                 page_numbers = pages, char_count = int (length (note_header @ note_text)),
                 is_critical = True, note_number = Some note_num, sub_note = None,
                 sub_section = None, sub_sub_section = None, note_title = Some title,
                 hierarchy_level = 0, parent_note = None, is_complete_note = False\<rparr>])"

text \<open>\<open>note_header\<close> is the f-string \<^verbatim>\<open>f"{note_number} - {note_title}\n\n"\<close>.\<close>

definition note_header_of :: "string \<Rightarrow> string \<Rightarrow> string" where
  "note_header_of note_num title = note_num @ '' - '' @ title @ [CHR 0x0A, CHR 0x0A]"

definition chunk_note :: "int \<Rightarrow> string \<Rightarrow> string \<Rightarrow> string \<Rightarrow> int list \<Rightarrow> Chunk list" where
  "chunk_note max_chunk_size note_text note_num title pages =
     (let note_text_clean = strip note_text;
          note_len = int (length note_text_clean)
      in if note_len \<le> max_chunk_size
         then [\<lparr>text' = note_text_clean, chunk_type = ''note_complete'', page_numbers = pages,
                 char_count = note_len, is_critical = True, note_number = Some note_num,
                 sub_note = None, sub_section = None, sub_sub_section = None,
                 note_title = Some title, hierarchy_level = 0, parent_note = None,
                 is_complete_note = True\<rparr>]
         else
           (let hier = parse_note_hierarchy note_text_clean note_num;
                note_header = note_header_of note_num title
            in if sub_notes hier \<noteq> []
               then
                 concat (map (\<lambda>sub_note_info.
                   (let sub_note_text =
                          strip (slice note_text_clean (start_pos sub_note_info)
                                   (end_pos sub_note_info));
                        full_sub_note_text = note_header @ sub_note_text
                    in if int (length full_sub_note_text) > max_chunk_size
                       then chunk_note_subsections max_chunk_size sub_note_text note_header
                              note_num (sn_sub_note sub_note_info) pages
                       else [\<lparr>text' = full_sub_note_text, chunk_type = ''note_section'',
                               page_numbers = pages,
                               char_count = int (length full_sub_note_text),
                               is_critical = True, note_number = Some note_num,
                               sub_note = Some (sn_sub_note sub_note_info),
                               sub_section = None, sub_sub_section = None,
                               note_title = Some title, hierarchy_level = 1,
                               parent_note = Some note_num, is_complete_note = False\<rparr>]))
                   (sub_notes hier))
               else chunk_large_note_by_elements max_chunk_size note_text_clean note_header
                      note_num title pages))"

subsection \<open>The document\<close>

record page_info =
  pg_page_num :: int
  pg_start_pos :: nat
  pg_end_pos :: nat

text \<open>Step 1: the pages are joined, each followed by a blank line, and their ranges kept.\<close>

fun join_pages :: "(int \<times> string) list \<Rightarrow> string \<Rightarrow> page_info list \<Rightarrow> string \<times> page_info list" where
  "join_pages [] full_text page_boundaries = (full_text, page_boundaries)"
| "join_pages ((page_num, page_text) # others) full_text page_boundaries =
     join_pages others (full_text @ page_text @ [CHR 0x0A, CHR 0x0A])
       (page_boundaries @
        [\<lparr>pg_page_num = page_num, pg_start_pos = length full_text,
          pg_end_pos = length full_text + length page_text\<rparr>])"

text \<open>The pages a range overlaps.\<close>

definition pages_of_range :: "page_info list \<Rightarrow> nat \<Rightarrow> nat \<Rightarrow> int list" where
  "pages_of_range page_boundaries a b =
     map pg_page_num
       (filter (\<lambda>page_info. \<not> (b \<le> pg_start_pos page_info \<or> a \<ge> pg_end_pos page_info))
          page_boundaries)"

text \<open>The chunking of plain text: every element of the text through \<open>_chunk_element\<close>.\<close>

definition chunk_elements_of :: "int \<Rightarrow> string \<Rightarrow> int \<Rightarrow> Chunk list" where
  "chunk_elements_of max_chunk_size txt page_num =
     concat (map (\<lambda>el. chunk_element max_chunk_size el page_num) (extract_elements txt page_num))"

text \<open>Step 3: the chunks of the notes, in the order of the boundaries.\<close>

definition end_of :: "'a span_scheme \<Rightarrow> nat" where
  "end_of b = (case end_pos b of None \<Rightarrow> 0 | Some e \<Rightarrow> e)"

definition note_chunks ::
  "int \<Rightarrow> string \<Rightarrow> page_info list \<Rightarrow> note_boundary list \<Rightarrow> Chunk list" where
  "note_chunks max_chunk_size full_text page_boundaries note_boundaries =
     concat (map (\<lambda>note_info.
        chunk_note max_chunk_size
          (slice full_text (start_pos note_info) (end_pos note_info))
          (nb_note_number note_info) (nb_note_title note_info)
          (pages_of_range page_boundaries (start_pos note_info) (end_of note_info)))
        note_boundaries)"

text \<open>Step 4: the ranges outside every note.\<close>

definition gaps_between :: "note_boundary list \<Rightarrow> (nat \<times> nat) list" where
  "gaps_between note_boundaries =
     concat (map (\<lambda>i. if start_pos (note_boundaries ! (i + 1)) > end_of (note_boundaries ! i)
                       then [(end_of (note_boundaries ! i), start_pos (note_boundaries ! (i + 1)))]
                       else [])
               [0 ..< length note_boundaries - 1])"

definition non_note_ranges :: "string \<Rightarrow> note_boundary list \<Rightarrow> (nat \<times> nat) list" where
  "non_note_ranges full_text note_boundaries =
     (if note_boundaries \<noteq> [] \<and> start_pos (hd note_boundaries) > 0
      then [(0, start_pos (hd note_boundaries))] else []) @
     gaps_between note_boundaries @
     (if note_boundaries \<noteq> [] \<and> end_of (last note_boundaries) < length full_text
      then [(end_of (last note_boundaries), length full_text)] else [])"

definition non_note_chunks ::
  "int \<Rightarrow> string \<Rightarrow> page_info list \<Rightarrow> (nat \<times> nat) list \<Rightarrow> Chunk list" where
  "non_note_chunks max_chunk_size full_text page_boundaries ranges =
     concat (map (\<lambda>(a, b).
        (let non_note_text = strip (slice full_text a (Some b)) in
         if non_note_text = [] then []
         else
           (let section_pages0 = pages_of_range page_boundaries a b;
                section_pages = (if section_pages0 = [] then [1] else section_pages0)
            in chunk_elements_of max_chunk_size non_note_text (hd section_pages))))
        ranges)"

definition chunk_document_note_aware :: "int \<Rightarrow> (int \<times> string) list \<Rightarrow> Chunk list" where
  "chunk_document_note_aware max_chunk_size pages =
     (let (full_text, page_boundaries) = join_pages pages [] [];
          note_boundaries = detect_note_boundaries full_text
      in if note_boundaries = []
         then concat (map (\<lambda>(page_num, page_text).
                 chunk_elements_of max_chunk_size page_text page_num) pages)
         else note_chunks max_chunk_size full_text page_boundaries note_boundaries @
              non_note_chunks max_chunk_size full_text page_boundaries
                (non_note_ranges full_text note_boundaries))"

definition chunk_document :: "int \<Rightarrow> bool \<Rightarrow> (int \<times> string) list \<Rightarrow> Chunk list" where
  "chunk_document max_chunk_size enable_note_aware pages =
     (if enable_note_aware then chunk_document_note_aware max_chunk_size pages
      else concat (map (\<lambda>(page_num, page_text).
             chunk_elements_of max_chunk_size page_text page_num) pages))"

section \<open>Auxiliary notions for the proofs about the regular expressions and the note parser\<close>

text \<open>The entry the end-position loop leaves at index \<open>i\<close>.\<close>

definition with_end :: "nat \<Rightarrow> 'a span_scheme list \<Rightarrow> nat \<Rightarrow> 'a span_scheme" where
  "with_end n bs i =
     (bs ! i)\<lparr>end_pos := Some (if i < length bs - 1 then start_pos (bs ! (i + 1)) else n)\<rparr>"

text \<open>Position plus remaining length: constant along a match.\<close>

definition st_total :: "mstate \<Rightarrow> nat" where
  "st_total s = m_pos s + length (m_rest s)"

section \<open>Auxiliary notions for the proofs about the note chunker\<close>


section \<open>Auxiliary notions for the deduplication proofs\<close>

text \<open>
  The stable descending sort by score, as a specification: the stable ascending sort of the
  library on the reversed list, reversed. It is Python's \<open>sorted(..., reverse=True)\<close> when
  no score is NaN.
\<close>

definition stable_sort_desc :: "RetrievalResult list \<Rightarrow> RetrievalResult list" where
  "stable_sort_desc rs = rev (sort_key (\<lambda>r. float_key (score r)) (rev rs))"

fun pairwise_fresh ::
  "(string \<Rightarrow> string \<Rightarrow> pyfloat) \<Rightarrow> pyfloat \<Rightarrow> string list \<Rightarrow> RetrievalResult list \<Rightarrow> bool" where
  "pairwise_fresh ratio thr seen [] = True"
| "pairwise_fresh ratio thr seen (r # rs) =
     (\<not> is_duplicate ratio thr r seen \<and> pairwise_fresh ratio thr (seen @ [chunk_text r]) rs)"

fun cap_filter :: "int \<Rightarrow> (int \<Rightarrow> int) \<Rightarrow> RetrievalResult list \<Rightarrow> RetrievalResult list" where
  "cap_filter m cnt [] = []"
| "cap_filter m cnt (r # rs) =
     (case primary_page r of
        None \<Rightarrow> r # cap_filter m cnt rs
      | Some p \<Rightarrow> if cnt p < m then r # cap_filter m (cnt(p := cnt p + 1)) rs
                  else cap_filter m cnt rs)"

definition count_of :: "(int \<rightharpoonup> int) \<Rightarrow> int \<Rightarrow> int" where
  "count_of page_counts p = (case page_counts p of None \<Rightarrow> 0 | Some k \<Rightarrow> k)"

section \<open>The re-ranking rule in the words of the specification\<close>

text \<open>
  The hints come from a fixed vocabulary: a section type is a hint when one of its phrases
  occurs in the lowercased query; the section filters, when given, are hints too.
\<close>

definition hint_vocabulary :: "(string list \<times> string) list" where
  "hint_vocabulary =
     [([''fair value''], ''fair_value''),
      ([''investment propert''], ''investment_property''),
      ([''balance sheet''], ''balance_sheet''),
      ([''income statement'', ''profit''], ''income_statement''),
      ([''cash flow''], ''cash_flow''),
      ([''note''], ''notes''),
      ([''borrowing'', ''debt''], ''borrowings''),
      ([''equity''], ''equity'')]"

definition hint_set :: "string \<Rightarrow> string list option \<Rightarrow> string set" where
  "hint_set query section_filters =
     {h. \<exists>phrases. (phrases, h) \<in> set hint_vocabulary \<and>
                    (\<exists>phrase \<in> set phrases. sublist phrase (lower query))} \<union>
     (case section_filters of None \<Rightarrow> {} | Some fs \<Rightarrow> set fs)"

definition hints_of :: "(string list \<times> string) list \<Rightarrow> string \<Rightarrow> string list" where
  "hints_of vocabulary query_lower =
     concat (map (\<lambda>(phrases, h).
                    if \<exists>phrase \<in> set phrases. sublist phrase query_lower then [h] else [])
               vocabulary)"

text \<open>
  \<open>match_count\<close> is the number of entries of a result's \<open>section_types\<close> that are among the
  hints. \<open>boost_factor n\<close> is \<open>1 + 0.2 * n\<close> computed in floats. \<open>boosted\<close> multiplies the
  score of a result with at least one match by the boost factor, in floats, and relabels
  its tier; a result without a match is unchanged.
\<close>

definition match_count :: "string list \<Rightarrow> RetrievalResult \<Rightarrow> nat" where
  "match_count hints r = length (filter (\<lambda>t. t \<in> set hints) (section_types r))"

definition boost_factor :: "nat \<Rightarrow> pyfloat" where
  "boost_factor n =
     float_add (float_literal 1) (float_mul (float_literal (2 / 10)) (float_of_int (int n)))"

definition boosted :: "string list \<Rightarrow> RetrievalResult \<Rightarrow> RetrievalResult" where
  "boosted hints r =
     (if 1 \<le> match_count hints r
      then r\<lparr>score := float_mul (score r) (boost_factor (match_count hints r)),
             retrieval_tier := ''re-ranked''\<rparr>
      else r)"

text \<open>A float that is a double: rounding leaves it unchanged.\<close>

definition is_double :: "pyfloat \<Rightarrow> bool" where
  "is_double x = (case x of Fin q \<Rightarrow> round64 q = Fin q | _ \<Rightarrow> True)"

section \<open>Concrete inputs for the note parser and the chunker\<close>

definition two_notes_doc :: string where
  "two_notes_doc = ''Intro\<newline>NOTE 1 - Cash.\<newline>NOTE 2 - Debt.''"

definition overlap_paragraph :: element where
  "overlap_paragraph = \<lparr>e_type = ''paragraph'', e_text = ''aaaaaaa. bbbbbbb. ccccccc.'', e_page_num = 1\<rparr>"


definition sub_note_text :: string where
  "sub_note_text = ''12.1 Fair Value\<newline>12.2 Recon\<newline>5.2 Other''"


text \<open>
  A note without sub-notes whose first two elements fit into one chunk of 40 characters, and
  a note whose only sub-note is split into sentences with a budget of 12 characters.
\<close>

definition mixed_doc :: string where
  "mixed_doc = ''NOTE 1 - Cash.\<newline> \<newline>Ab\<newline> \<newline>Cd ef gh ij kl mn op qr st uv wx yz''"

definition sentences_doc :: string where
  "sentences_doc = ''NOTE 1 - Cash.\<newline>1.1 Alpha one.\<newline>Beta two.\<newline>Gamma three.''"

section \<open>Concrete inputs for the deduplication stage\<close>

text \<open>
  A stand-in for the library's similarity ratio on the concrete inputs below: 1.0 on equal
  texts, 0.0 otherwise.
\<close>

definition exact_ratio :: "string \<Rightarrow> string \<Rightarrow> pyfloat" where
  "exact_ratio a b = (if a = b then Fin 1 else Fin 0)"

definition mk_result :: "string \<Rightarrow> string \<Rightarrow> int list \<Rightarrow> pyfloat \<Rightarrow> RetrievalResult" where
  "mk_result cid txt pages s =
     \<lparr>chunk_id = cid, chunk_text = txt, result_chunk_type = ''paragraph'', section_types = [],
      result_note_number = None, result_page_numbers = pages, score = s,
      retrieval_tier = ''vector''\<rparr>"

text \<open>
  Six results with the scores 0.5, 0.875, 0.75, 0.625, 0.375 and 0.125: \<open>r2\<close> and \<open>r3\<close> have
  the same normalised text, five of them share primary page 7, \<open>r6\<close> has no page.
\<close>

definition sample_results :: "RetrievalResult list" where
  "sample_results =
     [mk_result ''r1'' ''cash flow'' [7] (Fin (1 / 2)),
      mk_result ''r2'' ''Fair Value '' [7, 8] (Fin (7 / 8)),
      mk_result ''r3'' ''fair value'' [7] (Fin (3 / 4)),
      mk_result ''r4'' ''equity'' [7] (Fin (5 / 8)),
      mk_result ''r5'' ''borrowings'' [7] (Fin (3 / 8)),
      mk_result ''r6'' ''notes'' [] (Fin (1 / 8))]"

text \<open>
  Three results with the scores 1.0, NaN and 2.0, on three pages. In \<open>nan_duplicate\<close> the
  second has the text of the first; in \<open>nan_results\<close> the three texts differ.
\<close>

definition nan_duplicate :: "RetrievalResult list" where
  "nan_duplicate =
     [mk_result ''r1'' ''cash flow'' [1] (Fin 1),
      mk_result ''r2'' ''Cash Flow'' [2] NaN,
      mk_result ''r3'' ''equity'' [3] (Fin 2)]"

definition nan_results :: "RetrievalResult list" where
  "nan_results =
     [mk_result ''r1'' ''cash flow'' [1] (Fin 1),
      mk_result ''r2'' ''borrowings'' [2] NaN,
      mk_result ''r3'' ''equity'' [3] (Fin 2)]"

section \<open>Concrete inputs for the retrieval engine\<close>

definition sample_row :: "string \<Rightarrow> string \<Rightarrow> pyfloat \<Rightarrow> chunk_row" where
  "sample_row cid txt v =
     \<lparr>row_chunk_id = cid, row_chunk_text = txt, row_chunk_type = ''paragraph'',
      row_section_types = None, row_note_number = None, row_page_numbers = None,
      row_value = Some v\<rparr>"

definition three_keyword_rows :: "chunk_row list" where
  "three_keyword_rows =
     [sample_row ''k1'' ''revenue was 31,34,063'' (Fin (3 / 8)),
      sample_row ''k2'' ''total borrowings'' (Fin (1 / 4)),
      sample_row ''k3'' ''share capital'' (Fin (1 / 8))]"

text \<open>
  Scenario D of the specification: the embedding succeeds, the vector index raises on every
  call, the keyword index returns three rows.
\<close>

definition vector_down :: backends where
  "vector_down =
     \<lparr>ensure_connection = None,
      embed_single = (\<lambda>q. \<lparr>embedding = [Fin (1 / 8), Fin (1 / 4)], success = True, error = None\<rparr>),
      vector_query = (\<lambda>v c sf st nn k. Inl (BackendError ''vector index down'')),
      keyword_query = (\<lambda>q c sf st nn k. Inr three_keyword_rows)\<rparr>"

text \<open>The embedding service fails; the keyword index returns three rows.\<close>

definition embedding_down :: backends where
  "embedding_down =
     \<lparr>ensure_connection = None,
      embed_single = (\<lambda>q. \<lparr>embedding = [], success = False, error = Some ''Request timeout''\<rparr>),
      vector_query = (\<lambda>v c sf st nn k. Inl (BackendError ''vector index down'')),
      keyword_query = (\<lambda>q c sf st nn k. Inr three_keyword_rows)\<rparr>"

text \<open>
  The vector index answers with one row whose similarity is null (a chunk stored without
  an embedding); the keyword index returns three rows.
\<close>

definition null_similarity :: backends where
  "null_similarity =
     \<lparr>ensure_connection = None,
      embed_single = (\<lambda>q. \<lparr>embedding = [Fin (1 / 8), Fin (1 / 4)], success = True, error = None\<rparr>),
      vector_query = (\<lambda>v c sf st nn k. Inr [(sample_row ''v1'' ''revenue'' (Fin 0))\<lparr>row_value := None\<rparr>]),
      keyword_query = (\<lambda>q c sf st nn k. Inr three_keyword_rows)\<rparr>"

text \<open>
  Three results with the scores 0.5, 0.75 and 0.625 and with section types; two results
  with the scores 0.75 and 0.875 whose exact products with 1.4 and 1.2 are both 1.05.
\<close>

definition tagged_results :: "RetrievalResult list" where
  "tagged_results =
     [(mk_result ''a'' ''alpha'' [1] (Fin (1 / 2)))\<lparr>section_types := [''fair_value'', ''notes'']\<rparr>,
      (mk_result ''b'' ''beta'' [2] (Fin (3 / 4)))\<lparr>section_types := [''equity'']\<rparr>,
      (mk_result ''c'' ''gamma'' [3] (Fin (5 / 8)))\<lparr>section_types := [''fair_value'']\<rparr>]"

definition tied_results :: "RetrievalResult list" where
  "tied_results =
     [(mk_result ''a'' ''alpha'' [1] (Fin (3 / 4)))\<lparr>section_types := [''fair_value'', ''notes'']\<rparr>,
      (mk_result ''b'' ''beta'' [2] (Fin (7 / 8)))\<lparr>section_types := [''fair_value'']\<rparr>]"

section \<open>Properties of the float comparisons\<close>

lemma float_lt_key: "a \<noteq> NaN \<Longrightarrow> b \<noteq> NaN \<Longrightarrow> float_lt a b = (float_key a < float_key b)"
  by (simp add: float_lt_def)

lemma float_ge_key: "a \<noteq> NaN \<Longrightarrow> b \<noteq> NaN \<Longrightarrow> float_ge a b = (float_key b \<le> float_key a)"
  by (simp add: float_ge_def)

lemma float_mul_commute: "float_mul a b = float_mul b a"
  by (cases a; cases b) (auto simp: float_mul_def mult.commute)

lemma float_mul_one: "is_double x \<Longrightarrow> float_mul x (Fin 1) = x"
  by (cases x) (auto simp: float_mul_def is_double_def is_negative_def float_lt_def float_key_def)

section \<open>Properties of the sort\<close>

text \<open>
  On keys that \<open><\<close> orders totally (there is a key function \<open>k\<close> into a linear order with
  \<open>lt a b = (k a < k b)\<close> on the elements of the list) \<open>list_sort\<close> is the stable sort: the
  binary search finds the position after the elements not greater than the pivot, and the
  initial run is sorted. For every \<open>lt\<close> the result is a permutation of the input.
\<close>

declare bisect.simps [simp del]

lemma mset_take_drop: "mset (take n xs) + mset (drop n xs) = mset xs"
  by (metis append_take_drop_id mset_append)

lemma bisect_bounds:
  fixes k :: "'a \<Rightarrow> 'k::linorder"
  assumes "sorted (map k s)" "\<forall>x\<in>set s. lt pivot x = (k pivot < k x)"
    "l \<le> r" "r \<le> length s"
    "\<forall>i<l. k (s ! i) \<le> k pivot" "\<forall>i. r \<le> i \<and> i < length s \<longrightarrow> k pivot < k (s ! i)"
  shows "bisect lt pivot s l r \<le> length s \<and>
         (\<forall>i<bisect lt pivot s l r. k (s ! i) \<le> k pivot) \<and>
         (\<forall>i. bisect lt pivot s l r \<le> i \<and> i < length s \<longrightarrow> k pivot < k (s ! i))"
  using assms
proof (induction lt pivot s l r rule: bisect.induct)
  case (1 lt pivot xs l r)
  show ?case
  proof (cases "l < r")
    case False
    then have "bisect lt pivot xs l r = l" by (subst bisect.simps) simp
    moreover have "l = r" using False "1.prems"(3) by simp
    ultimately show ?thesis using "1.prems" by auto
  next
    case True
    define p where "p = l + (r - l) div 2"
    have p: "l \<le> p" "p < r" "p < length xs" using True "1.prems"(4) by (auto simp: p_def)
    have mem: "xs ! p \<in> set xs" using p by simp
    show ?thesis
    proof (cases "lt pivot (xs ! p)")
      case lt: True
      have e: "bisect lt pivot xs l r = bisect lt pivot xs l p"
        using True lt by (subst bisect.simps) (simp add: p_def Let_def)
      have kp: "k pivot < k (xs ! p)" using lt "1.prems"(2) mem by simp
      have up: "\<forall>i. p \<le> i \<and> i < length xs \<longrightarrow> k pivot < k (xs ! i)"
      proof (intro allI impI)
        fix i assume i: "p \<le> i \<and> i < length xs"
        have "k (xs ! p) \<le> k (xs ! i)"
          using "1.prems"(1) i p by (simp add: sorted_iff_nth_mono)
        with kp show "k pivot < k (xs ! i)" by simp
      qed
      have "bisect lt pivot xs l p \<le> length xs \<and>
         (\<forall>i<bisect lt pivot xs l p. k (xs ! i) \<le> k pivot) \<and>
         (\<forall>i. bisect lt pivot xs l p \<le> i \<and> i < length xs \<longrightarrow> k pivot < k (xs ! i))"
        using "1.IH"(1)[OF True p_def lt "1.prems"(1,2) p(1) _ "1.prems"(5) up] p by simp
      then show ?thesis unfolding e .
    next
      case nlt: False
      have e: "bisect lt pivot xs l r = bisect lt pivot xs (p + 1) r"
        using True nlt by (subst bisect.simps) (simp add: p_def Let_def)
      have kp: "k (xs ! p) \<le> k pivot" using nlt "1.prems"(2) mem by (simp add: not_less)
      have lo: "\<forall>i<p + 1. k (xs ! i) \<le> k pivot"
      proof (intro allI impI)
        fix i assume i: "i < p + 1"
        have "k (xs ! i) \<le> k (xs ! p)"
          using "1.prems"(1) i p by (simp add: sorted_iff_nth_mono)
        with kp show "k (xs ! i) \<le> k pivot" by simp
      qed
      have "bisect lt pivot xs (p + 1) r \<le> length xs \<and>
         (\<forall>i<bisect lt pivot xs (p + 1) r. k (xs ! i) \<le> k pivot) \<and>
         (\<forall>i. bisect lt pivot xs (p + 1) r \<le> i \<and> i < length xs \<longrightarrow> k pivot < k (xs ! i))"
        using "1.IH"(2)[OF True p_def nlt "1.prems"(1,2) _ "1.prems"(4) lo "1.prems"(6)] p by simp
      then show ?thesis unfolding e .
    qed
  qed
qed

lemma insert_at_bisect:
  fixes k :: "'a \<Rightarrow> 'k::linorder"
  assumes "sorted (map k s)" "\<forall>x\<in>set s. lt pivot x = (k pivot < k x)"
  defines "u \<equiv> bisect lt pivot s 0 (length s)"
  shows "sorted (map k (take u s @ pivot # drop u s))"
    and "filter (\<lambda>x. k x = v) (take u s @ pivot # drop u s) = filter (\<lambda>x. k x = v) (s @ [pivot])"
proof -
  have "bisect lt pivot s 0 (length s) \<le> length s \<and>
         (\<forall>i<bisect lt pivot s 0 (length s). k (s ! i) \<le> k pivot) \<and>
         (\<forall>i. bisect lt pivot s 0 (length s) \<le> i \<and> i < length s \<longrightarrow> k pivot < k (s ! i))"
    by (rule bisect_bounds[where k = k and s = s and lt = lt and pivot = pivot and l = 0
          and r = "length s"]) (use assms(1,2) in auto)
  then have b: "u \<le> length s" "\<forall>i<u. k (s ! i) \<le> k pivot"
    "\<forall>i. u \<le> i \<and> i < length s \<longrightarrow> k pivot < k (s ! i)"
    by (simp_all add: u_def)
  have lo: "\<forall>x\<in>set (take u s). k x \<le> k pivot"
  proof
    fix x assume "x \<in> set (take u s)"
    then obtain i where "i < length (take u s)" "x = take u s ! i" by (metis in_set_conv_nth)
    then show "k x \<le> k pivot" using b by simp
  qed
  have hi: "\<forall>x\<in>set (drop u s). k pivot < k x"
  proof
    fix x assume "x \<in> set (drop u s)"
    then obtain i where i: "i < length (drop u s)" "x = drop u s ! i" by (metis in_set_conv_nth)
    then have "x = s ! (u + i)" "u + i < length s" using b(1) by auto
    then show "k pivot < k x" using b(3) by simp
  qed
  have st: "sorted (map k (take u s))" "sorted (map k (drop u s))"
    using assms(1) by (simp_all add: sorted_wrt_take sorted_wrt_drop take_map[symmetric] drop_map[symmetric])
  show "sorted (map k (take u s @ pivot # drop u s))"
    using st lo hi by (fastforce simp: sorted_append)
  have "filter (\<lambda>x. k x = v) s = filter (\<lambda>x. k x = v) (take u s) @ filter (\<lambda>x. k x = v) (drop u s)"
    by (metis append_take_drop_id filter_append)
  moreover have "k pivot = v \<Longrightarrow> filter (\<lambda>x. k x = v) (drop u s) = []"
    using hi by (auto simp: filter_empty_conv)
  ultimately show "filter (\<lambda>x. k x = v) (take u s @ pivot # drop u s) = filter (\<lambda>x. k x = v) (s @ [pivot])"
    by auto
qed

lemma binarysort_stable:
  fixes k :: "'a \<Rightarrow> 'k::linorder"
  assumes "\<forall>a\<in>set pre \<union> set rest. \<forall>b\<in>set pre \<union> set rest. lt a b = (k a < k b)"
    "mset s = mset pre" "sorted (map k s)" "\<forall>v. filter (\<lambda>x. k x = v) s = filter (\<lambda>x. k x = v) pre"
  shows "mset (binarysort lt s rest) = mset (pre @ rest) \<and> sorted (map k (binarysort lt s rest)) \<and>
         (\<forall>v. filter (\<lambda>x. k x = v) (binarysort lt s rest) = filter (\<lambda>x. k x = v) (pre @ rest))"
  using assms
proof (induction rest arbitrary: s pre)
  case Nil
  then show ?case by (simp add: binarysort_def)
next
  case (Cons pivot rest)
  define u where "u = bisect lt pivot s 0 (length s)"
  define s' where "s' = take u s @ pivot # drop u s"
  have sets: "set s = set pre" using Cons.prems(2) by (metis set_mset_mset)
  have tot: "\<forall>x\<in>set s. lt pivot x = (k pivot < k x)" using Cons.prems(1) sets by simp
  have a: "sorted (map k s')" and b: "\<forall>v. filter (\<lambda>x. k x = v) s' = filter (\<lambda>x. k x = v) (s @ [pivot])"
    using insert_at_bisect[of k s lt pivot] Cons.prems(3) tot by (simp_all add: s'_def u_def)
  have m: "mset s' = mset (pre @ [pivot])"
  proof -
    have "mset s' = mset s + {#pivot#}" by (simp add: s'_def mset_take_drop)
    then show ?thesis using Cons.prems(2) by simp
  qed
  have f: "\<forall>v. filter (\<lambda>x. k x = v) s' = filter (\<lambda>x. k x = v) (pre @ [pivot])"
    using b Cons.prems(4) by simp
  have t: "\<forall>a\<in>set (pre @ [pivot]) \<union> set rest. \<forall>b\<in>set (pre @ [pivot]) \<union> set rest. lt a b = (k a < k b)"
    using Cons.prems(1) by simp
  have e: "binarysort lt s (pivot # rest) = binarysort lt s' rest"
    by (simp add: binarysort_def s'_def u_def Let_def)
  show ?case unfolding e using Cons.IH[OF t m a f] by simp
qed

lemma run_length_le: "run_length lt desc prev xs \<le> length xs"
  by (induction xs arbitrary: prev) auto

lemma run_ascending:
  fixes k :: "'a \<Rightarrow> 'k::linorder"
  assumes "\<forall>a\<in>set (prev # xs). \<forall>b\<in>set (prev # xs). lt a b = (k a < k b)"
  shows "sorted (map k (prev # take (run_length lt False prev xs) xs))"
  using assms
proof (induction xs arbitrary: prev)
  case Nil
  then show ?case by simp
next
  case (Cons x xs)
  show ?case
  proof (cases "lt x prev")
    case True
    then show ?thesis by simp
  next
    case False
    then have le: "k prev \<le> k x" using Cons.prems by (simp add: not_less)
    have "sorted (map k (x # take (run_length lt False x xs) xs))"
      using Cons.prems by (intro Cons.IH) simp
    then show ?thesis using False le by auto
  qed
qed

lemma run_descending:
  fixes k :: "'a \<Rightarrow> 'k::linorder"
  assumes "\<forall>a\<in>set (prev # xs). \<forall>b\<in>set (prev # xs). lt a b = (k a < k b)"
  shows "sorted_wrt (\<lambda>a b. k b < k a) (prev # take (run_length lt True prev xs) xs)"
  using assms
proof (induction xs arbitrary: prev)
  case Nil
  then show ?case by simp
next
  case (Cons x xs)
  show ?case
  proof (cases "lt x prev")
    case False
    then show ?thesis by simp
  next
    case True
    then have le: "k x < k prev" using Cons.prems by simp
    have "sorted_wrt (\<lambda>a b. k b < k a) (x # take (run_length lt True x xs) xs)"
      using Cons.prems by (intro Cons.IH) simp
    then show ?thesis using True le by auto
  qed
qed

lemma filter_rev_strict:
  fixes k :: "'a \<Rightarrow> 'k::linorder"
  assumes "sorted_wrt (\<lambda>a b. k b < k a) ys"
  shows "filter (\<lambda>x. k x = v) (rev ys) = filter (\<lambda>x. k x = v) ys"
  using assms
proof (induction ys)
  case Nil
  then show ?case by simp
next
  case (Cons y ys)
  have ih: "filter (\<lambda>x. k x = v) (rev ys) = filter (\<lambda>x. k x = v) ys" using Cons by simp
  show ?case
  proof (cases "k y = v")
    case True
    have "\<forall>x\<in>set ys. k x \<noteq> v" using Cons.prems True by fastforce
    then have "filter (\<lambda>x. k x = v) ys = []" by (simp add: filter_empty_conv)
    then show ?thesis using ih True by simp
  next
    case False
    then show ?thesis using ih by simp
  qed
qed

lemma list_sort_mset: "mset (list_sort lt xs) = mset xs"
proof -
  have b: "mset (binarysort lt s rest) = mset s + mset rest" for s rest
  proof (induction rest arbitrary: s)
    case Nil
    then show ?case by (simp add: binarysort_def)
  next
    case (Cons p rest)
    define s' where "s' = take (bisect lt p s 0 (length s)) s @ p # drop (bisect lt p s 0 (length s)) s"
    have m: "mset s' = mset s + {#p#}" by (simp add: s'_def mset_take_drop)
    have "binarysort lt s (p # rest) = binarysort lt s' rest"
      by (simp add: binarysort_def s'_def Let_def)
    then show ?case using Cons.IH[of s'] m by simp
  qed
  show ?thesis
    by (auto simp: list_sort_def b mset_take_drop split: prod.splits)
qed

lemma list_sort_sort_key:
  fixes k :: "'a \<Rightarrow> 'k::linorder"
  assumes tot: "\<forall>a\<in>set xs. \<forall>b\<in>set xs. lt a b = (k a < k b)"
  shows "list_sort lt xs = sort_key k xs"
proof (cases "length xs < 2")
  case True
  then have "xs = [] \<or> (\<exists>x. xs = [x])" by (cases xs) (auto simp: length_Suc_conv)
  then show ?thesis using True by (auto simp: list_sort_def)
next
  case False
  then obtain x0 x1 rest where xs: "xs = x0 # x1 # rest"
    by (cases xs; cases "tl xs") auto
  define desc where "desc = lt x1 x0"
  define n where "n = 2 + run_length lt desc x1 rest"
  define run where "run = (if desc then rev (take n xs) else take n xs)"
  have cr: "count_run lt xs = (n, desc)" by (simp add: count_run_def xs n_def desc_def)
  have ls: "list_sort lt xs = binarysort lt run (drop n xs)"
    using False by (simp add: list_sort_def cr run_def)
  have tk: "take n xs = x0 # x1 # take (run_length lt desc x1 rest) rest" by (simp add: xs n_def)
  have tot1: "\<forall>a\<in>set (x1 # rest). \<forall>b\<in>set (x1 # rest). lt a b = (k a < k b)" using tot xs by simp
  have inv: "mset run = mset (take n xs) \<and> sorted (map k run) \<and>
             (\<forall>v. filter (\<lambda>x. k x = v) run = filter (\<lambda>x. k x = v) (take n xs))"
  proof (cases desc)
    case False
    have "\<not> k x1 < k x0" using False tot xs by (simp add: desc_def)
    then have "k x0 \<le> k x1" by simp
    moreover have "sorted (map k (x1 # take (run_length lt False x1 rest) rest))"
      by (rule run_ascending[OF tot1])
    ultimately have "sorted (map k (take n xs))" using False unfolding tk by auto
    then show ?thesis using False by (simp add: run_def)
  next
    case True
    have "k x1 < k x0" using True tot xs by (simp add: desc_def)
    moreover have "sorted_wrt (\<lambda>a b. k b < k a) (x1 # take (run_length lt True x1 rest) rest)"
      by (rule run_descending[OF tot1])
    ultimately have d: "sorted_wrt (\<lambda>a b. k b < k a) (take n xs)" using True unfolding tk by auto
    then have "sorted_wrt (\<lambda>a b. k a < k b) (rev (take n xs))" by (simp add: sorted_wrt_rev)
    then have "sorted_wrt (\<lambda>a b. k a \<le> k b) (rev (take n xs))"
      by (rule sorted_wrt_mono_rel[rotated]) simp
    then have "sorted (map k (rev (take n xs)))" by (simp add: sorted_wrt_map)
    then show ?thesis using True filter_rev_strict[OF d] by (simp add: run_def)
  qed
  have tot2: "\<forall>a\<in>set (take n xs) \<union> set (drop n xs). \<forall>b\<in>set (take n xs) \<union> set (drop n xs). lt a b = (k a < k b)"
    using tot by (metis append_take_drop_id set_append)
  have r: "mset (binarysort lt run (drop n xs)) = mset (take n xs @ drop n xs) \<and>
        sorted (map k (binarysort lt run (drop n xs))) \<and>
        (\<forall>v. filter (\<lambda>x. k x = v) (binarysort lt run (drop n xs)) = filter (\<lambda>x. k x = v) (take n xs @ drop n xs))"
    using binarysort_stable[OF tot2, of run] inv by blast
  show ?thesis unfolding ls
  proof (rule properties_for_sort_key[symmetric])
    show "mset (binarysort lt run (drop n xs)) = mset xs" using r by simp
    show "sorted (map k (binarysort lt run (drop n xs)))" using r by simp
    fix y assume "y \<in> set (binarysort lt run (drop n xs))"
    have "filter (\<lambda>x. k x = k y) (binarysort lt run (drop n xs)) = filter (\<lambda>x. k x = k y) xs"
      using r by simp
    then show "filter (\<lambda>x. k y = k x) (binarysort lt run (drop n xs)) = filter (\<lambda>x. k y = k x) xs"
      by (simp add: eq_commute)
  qed
qed

lemma py_sorted_mset: "mset (py_sorted lt reverse xs) = mset xs"
  by (simp add: py_sorted_def list_sort_mset)

lemma py_sorted_reverse_stable:
  fixes k :: "'a \<Rightarrow> 'k::linorder"
  assumes "\<forall>a\<in>set xs. \<forall>b\<in>set xs. lt a b = (k a < k b)"
  shows "py_sorted lt True xs = rev (sort_key k (rev xs))"
  using list_sort_sort_key[of "rev xs" lt k] assms by (simp add: py_sorted_def)

section \<open>Properties of the regular expression scan\<close>

lemma advance_pos: "k \<le> length (m_rest s) \<Longrightarrow> m_pos (advance k s) = m_pos s + k"
  by (simp add: advance_def)

lemma advance_total: "k \<le> length (m_rest s) \<Longrightarrow> st_total (advance k s) = st_total s"
  by (simp add: advance_def st_total_def)

lemma rmatch_pos:
  "e \<in> set (rmatch r s) \<Longrightarrow> m_pos s \<le> m_pos e \<and> st_total e = st_total s"
proof (induction r arbitrary: s e)
  case Eps
  then show ?case by simp
next
  case (Cls p)
  then show ?case
    by (cases "m_rest s") (auto simp: advance_pos advance_total split: if_splits)
next
  case (Rep p lo hi)
  define run where "run = length (takeWhile p (m_rest s))"
  define top where "top = (case hi of None \<Rightarrow> run | Some h \<Rightarrow> min h run)"
  have "run \<le> length (m_rest s)" unfolding run_def by (rule length_takeWhile_le)
  moreover have "top \<le> run" unfolding top_def by (simp split: option.splits)
  moreover have "e \<in> set (map (\<lambda>k. advance k s) (rev [lo ..< Suc top]))"
    using Rep unfolding run_def top_def by (simp only: rmatch.simps Let_def)
  then obtain k where "e = advance k s" "k \<le> top" by (auto simp del: upt_Suc)
  ultimately show ?case by (simp add: advance_pos advance_total)
next
  case Bos
  then show ?case by (simp split: if_splits)
next
  case Bol
  then show ?case by (simp split: if_splits)
next
  case Eol
  then show ?case by (cases "m_rest s") (auto split: if_splits)
next
  case (Behind p)
  then show ?case by (cases "m_prev s") (auto split: if_splits)
next
  case (Ahead r)
  then show ?case by (simp split: if_splits)
next
  case (Cat a b)
  from Cat.prems obtain m where m: "m \<in> set (rmatch a s)" "e \<in> set (rmatch b m)" by auto
  from Cat.IH(1)[OF m(1)] Cat.IH(2)[OF m(2)] show ?case by simp
next
  case (Alt a b)
  then show ?case by auto
next
  case (Grp n r)
  from Grp.prems obtain e' where e': "e' \<in> set (rmatch r s)"
    "e = e'\<lparr>m_groups := (n, take (m_pos e' - m_pos s) (m_rest s)) # m_groups e'\<rparr>" by auto
  from Grp.IH[OF e'(1)] e'(2) show ?case by (simp add: st_total_def)
qed

lemma states_from_props:
  "s \<in> set (states_from p pv tx) \<Longrightarrow> p \<le> m_pos s \<and> st_total s = p + length tx"
proof (induction tx arbitrary: p pv)
  case Nil
  then show ?case by (simp add: st_total_def)
next
  case (Cons c cs)
  show ?case
  proof (cases "s = \<lparr>m_pos = p, m_prev = pv, m_rest = c # cs, m_groups = []\<rparr>")
    case True
    then show ?thesis by (simp add: st_total_def)
  next
    case False
    with Cons.prems have "s \<in> set (states_from (Suc p) (Some c) cs)" by simp
    from Cons.IH[OF this] show ?thesis by simp
  qed
qed

lemma scan_props:
  "\<forall>s\<in>set sts. st_total s = T \<and> p \<le> m_pos s \<Longrightarrow> m \<in> set (scan r sts resume) \<Longrightarrow>
   p \<le> m_start m \<and> resume \<le> m_start m \<and> m_start m \<le> m_end m \<and> m_end m \<le> T"
proof (induction sts arbitrary: resume)
  case Nil
  then show ?case by simp
next
  case (Cons s ss)
  have inv: "\<forall>s\<in>set ss. st_total s = T \<and> p \<le> m_pos s" and s: "st_total s = T" "p \<le> m_pos s"
    using Cons.prems(1) by simp_all
  have b: "\<And>e. e \<in> set (rmatch r s) \<Longrightarrow> m_pos s \<le> m_pos e \<and> m_pos e \<le> T"
  proof -
    fix e assume "e \<in> set (rmatch r s)"
    from rmatch_pos[OF this] s(1) show "m_pos s \<le> m_pos e \<and> m_pos e \<le> T"
      by (simp add: st_total_def)
  qed
  note ih = Cons.IH[OF inv]
  show ?case
  proof (cases "m_pos s < resume")
    case True
    with Cons.prems(2) have "m \<in> set (scan r ss resume)" by simp
    from ih[OF this] show ?thesis .
  next
    case False
    show ?thesis
    proof (cases "rmatch r s")
      case Nil
      with False Cons.prems(2) have "m \<in> set (scan r ss resume)" by simp
      from ih[OF this] show ?thesis .
    next
      case (Cons e es)
      have be: "m_pos s \<le> m_pos e \<and> m_pos e \<le> T" using b[of e] Cons by simp
      show ?thesis
      proof (cases "m_pos s < m_pos e")
        case True
        with False Cons Cons.prems(2)
        have "m = mk_match s e \<or> m \<in> set (scan r ss (m_pos e))" by simp
        then show ?thesis
        proof
          assume "m = mk_match s e"
          with False be s show ?thesis by (simp add: mk_match_def)
        next
          assume "m \<in> set (scan r ss (m_pos e))"
          from ih[OF this] False True show ?thesis by simp
        qed
      next
        case stay: False
        show ?thesis
        proof (cases "filter (\<lambda>e'. m_pos s < m_pos e') es")
          case Nil
          with False Cons stay Cons.prems(2)
          have "m = mk_match s e \<or> m \<in> set (scan r ss resume)" by simp
          then show ?thesis
          proof
            assume "m = mk_match s e"
            with False be s show ?thesis by (simp add: mk_match_def)
          next
            assume "m \<in> set (scan r ss resume)"
            from ih[OF this] show ?thesis .
          qed
        next
          case (Cons e2 es2)
          then have "e2 \<in> set (filter (\<lambda>e'. m_pos s < m_pos e') es)" by simp
          then have e2: "e2 \<in> set es" "m_pos s < m_pos e2" by simp_all
          have be2: "m_pos e2 \<le> T" using b[of e2] e2(1) \<open>rmatch r s = e # es\<close> by simp
          from False \<open>rmatch r s = e # es\<close> stay Cons Cons.prems(2)
          have "m = mk_match s e \<or> m = mk_match s e2 \<or> m \<in> set (scan r ss (m_pos e2))"
            by simp
          then show ?thesis
          proof (elim disjE)
            assume "m = mk_match s e"
            with False be s show ?thesis by (simp add: mk_match_def)
          next
            assume "m = mk_match s e2"
            with False be2 e2 s show ?thesis by (simp add: mk_match_def)
          next
            assume "m \<in> set (scan r ss (m_pos e2))"
            from ih[OF this] False e2 show ?thesis by simp
          qed
        qed
      qed
    qed
  qed
qed

lemma scan_ordered:
  "\<forall>s\<in>set sts. st_total s = T \<Longrightarrow> sorted_wrt (<) (map m_pos sts) \<Longrightarrow>
   sorted_wrt (\<lambda>a b. m_end a \<le> m_start b) (scan r sts resume)"
proof (induction sts arbitrary: resume)
  case Nil
  then show ?case by simp
next
  case (Cons s ss)
  have inv: "\<forall>s\<in>set ss. st_total s = T" and srt: "sorted_wrt (<) (map m_pos ss)"
    and after: "\<forall>s'\<in>set ss. st_total s' = T \<and> Suc (m_pos s) \<le> m_pos s'"
    using Cons.prems by auto
  note ih = Cons.IH[OF inv srt]
  have later: "\<And>q m. m \<in> set (scan r ss q) \<Longrightarrow> Suc (m_pos s) \<le> m_start m \<and> q \<le> m_start m"
    using scan_props[OF after] by blast
  show ?case
  proof (cases "m_pos s < resume")
    case True
    with ih show ?thesis by simp
  next
    case False
    show ?thesis
    proof (cases "rmatch r s")
      case Nil
      with False ih show ?thesis by simp
    next
      case (Cons e es)
      show ?thesis
      proof (cases "m_pos s < m_pos e")
        case True
        have "\<forall>m\<in>set (scan r ss (m_pos e)). m_end (mk_match s e) \<le> m_start m"
          using later[of _ "m_pos e"] by (simp add: mk_match_def)
        with False Cons True ih[of "m_pos e"] show ?thesis by simp
      next
        case stay: False
        have pe: "m_pos e = m_pos s" using rmatch_pos[of e r s] Cons stay by simp
        show ?thesis
        proof (cases "filter (\<lambda>e'. m_pos s < m_pos e') es")
          case Nil
          have "\<forall>m\<in>set (scan r ss resume). m_end (mk_match s e) \<le> m_start m"
            using later[of _ resume] pe by (fastforce simp: mk_match_def)
          with False Cons stay Nil ih[of resume] show ?thesis by simp
        next
          case (Cons e2 es2)
          have "\<forall>m\<in>set (scan r ss (m_pos e2)). m_end (mk_match s e) \<le> m_start m"
            using later[of _ "m_pos e2"] pe by (fastforce simp: mk_match_def)
          moreover have "\<forall>m\<in>set (scan r ss (m_pos e2)). m_end (mk_match s e2) \<le> m_start m"
            using later[of _ "m_pos e2"] by (simp add: mk_match_def)
          moreover have "m_end (mk_match s e) \<le> m_start (mk_match s e2)"
            using pe by (simp add: mk_match_def)
          ultimately show ?thesis
            using False \<open>rmatch r s = e # es\<close> stay Cons ih[of "m_pos e2"] by simp
        qed
      qed
    qed
  qed
qed

lemma states_from_sorted: "sorted_wrt (<) (map m_pos (states_from p pv tx))"
proof (induction tx arbitrary: p pv)
  case Nil
  then show ?case by simp
next
  case (Cons c cs)
  have "\<forall>s\<in>set (states_from (Suc p) (Some c) cs). p < m_pos s"
  proof
    fix s assume "s \<in> set (states_from (Suc p) (Some c) cs)"
    from states_from_props[OF this] show "p < m_pos s" by simp
  qed
  with Cons.IH[of "Suc p" "Some c"] show ?case by simp
qed

lemma finditer_props:
  "m \<in> set (finditer r tx) \<Longrightarrow> m_start m \<le> m_end m \<and> m_end m \<le> length tx"
proof -
  assume m: "m \<in> set (finditer r tx)"
  have "\<forall>s\<in>set (states_from 0 None tx). st_total s = length tx \<and> 0 \<le> m_pos s"
    using states_from_props[of _ 0 None tx] by simp
  from scan_props[OF this, of m r 0] m show ?thesis by (simp add: finditer_def)
qed

lemma finditer_ordered: "sorted_wrt (\<lambda>a b. m_end a \<le> m_start b) (finditer r tx)"
proof -
  have "\<forall>s\<in>set (states_from 0 None tx). st_total s = length tx"
    using states_from_props[of _ 0 None tx] by simp
  then show ?thesis unfolding finditer_def using states_from_sorted by (rule scan_ordered)
qed

lemma finditer_starts_sorted: "sorted (map m_start (finditer r tx))"
proof -
  have "sorted_wrt (\<lambda>a b. m_start a \<le> m_start b) (finditer r tx)"
    using finditer_ordered[of r tx] finditer_props[of _ r tx]
    by (rule_tac sorted_wrt_mono_rel[where P = "\<lambda>a b. m_end a \<le> m_start b"]) fastforce+
  then show ?thesis by (simp add: sorted_map)
qed

section \<open>Properties of the note parser\<close>

lemma set_end_prefix:
  "k \<le> length bs \<Longrightarrow>
   foldl (set_end_step n) bs [0 ..< k] = map (with_end n bs) [0 ..< k] @ drop k bs"
proof (induction k)
  case 0
  then show ?case by simp
next
  case (Suc k)
  let ?L = "map (with_end n bs) [0 ..< k] @ drop k bs"
  have k: "k < length bs" using Suc.prems by simp
  have len: "length ?L = length bs" using k by simp
  have at_k: "?L ! k = bs ! k" using k by (simp add: nth_append)
  have at_k1: "k < length bs - 1 \<Longrightarrow> ?L ! (k + 1) = bs ! (k + 1)"
    using k by (simp add: nth_append)
  have step: "set_end_step n ?L k = ?L[k := with_end n bs k]"
    using at_k at_k1 len by (simp add: set_end_step_def with_end_def)
  have "?L[k := with_end n bs k] = map (with_end n bs) [0 ..< k] @ (drop k bs)[0 := with_end n bs k]"
    by (simp add: list_update_append)
  also have "(drop k bs)[0 := with_end n bs k] = with_end n bs k # drop (Suc k) bs"
    using k by (simp add: Cons_nth_drop_Suc[symmetric])
  finally have "?L[k := with_end n bs k] = map (with_end n bs) [0 ..< Suc k] @ drop (Suc k) bs"
    by simp
  with step Suc.IH k show ?case by simp
qed

lemma set_end_positions_map:
  "set_end_positions n bs = map (with_end n bs) [0 ..< length bs]"
  using set_end_prefix[of "length bs" bs n] by (simp add: set_end_positions_def)

lemma set_end_positions_length [simp]: "length (set_end_positions n bs) = length bs"
  by (simp add: set_end_positions_map)

lemma set_end_positions_nth:
  "i < length bs \<Longrightarrow> set_end_positions n bs ! i = with_end n bs i"
  by (simp add: set_end_positions_map)

lemma set_end_positions_start:
  "i < length bs \<Longrightarrow> start_pos (set_end_positions n bs ! i) = start_pos (bs ! i)"
  by (simp add: set_end_positions_nth with_end_def)

lemma set_end_positions_end:
  "i < length bs \<Longrightarrow> end_pos (set_end_positions n bs ! i) =
     Some (if Suc i < length bs then start_pos (bs ! Suc i) else n)"
  by (auto simp add: set_end_positions_nth with_end_def)

lemma set_end_positions_more:
  "i < length bs \<Longrightarrow> span.more (set_end_positions n bs ! i) = span.more (bs ! i)"
  by (simp add: set_end_positions_nth with_end_def)

lemma detect_note_boundaries_nth:
  assumes "i < length (finditer main_note_pattern tx)"
  shows "start_pos (detect_note_boundaries tx ! i) = m_start (finditer main_note_pattern tx ! i)"
    and "end_pos (detect_note_boundaries tx ! i) =
         Some (if Suc i < length (finditer main_note_pattern tx)
               then m_start (finditer main_note_pattern tx ! Suc i) else length tx)"
  using assms
  by (simp_all add: detect_note_boundaries_def set_end_positions_start set_end_positions_end)

lemma detect_note_boundaries_length:
  "length (detect_note_boundaries tx) = length (finditer main_note_pattern tx)"
  by (simp add: detect_note_boundaries_def)

lemma detect_note_boundaries_starts:
  "map start_pos (detect_note_boundaries tx) = map m_start (finditer main_note_pattern tx)"
  by (rule nth_equalityI)
     (simp_all add: detect_note_boundaries_length detect_note_boundaries_nth)

text \<open>
  Claim C4, amended. When main-note detection returns a non-empty list, each boundary ends
  where the next one starts and the last one ends at the end of the text; the starts are in
  ascending order and lie within the text. The first boundary starts at the first note
  marker, not at 0: text before the first marker lies outside every boundary (the chunker
  handles it as a non-note range).
\<close>

theorem note_boundaries_tile_from_first_marker:
  assumes "detect_note_boundaries tx \<noteq> []"
  shows "(\<forall>i. Suc i < length (detect_note_boundaries tx) \<longrightarrow>
            end_pos (detect_note_boundaries tx ! i) =
            Some (start_pos (detect_note_boundaries tx ! Suc i))) \<and>
         end_pos (last (detect_note_boundaries tx)) = Some (length tx) \<and>
         start_pos (hd (detect_note_boundaries tx)) = m_start (hd (finditer main_note_pattern tx)) \<and>
         sorted (map start_pos (detect_note_boundaries tx)) \<and>
         (\<forall>b\<in>set (detect_note_boundaries tx). start_pos b \<le> length tx)"
proof -
  let ?bs = "detect_note_boundaries tx" and ?ms = "finditer main_note_pattern tx"
  have len: "length ?bs = length ?ms" by (rule detect_note_boundaries_length)
  have ne: "?ms \<noteq> []" using assms len by auto
  have a: "\<forall>i. Suc i < length ?bs \<longrightarrow> end_pos (?bs ! i) = Some (start_pos (?bs ! Suc i))"
    by (simp add: len detect_note_boundaries_nth)
  have "last ?bs = ?bs ! (length ?ms - 1)" using assms len by (simp add: last_conv_nth)
  then have b: "end_pos (last ?bs) = Some (length tx)"
    using ne by (simp add: detect_note_boundaries_nth)
  have "hd ?bs = ?bs ! 0" using assms by (simp add: hd_conv_nth)
  then have c: "start_pos (hd ?bs) = m_start (hd ?ms)"
    using ne by (simp add: detect_note_boundaries_nth hd_conv_nth)
  have d: "sorted (map start_pos ?bs)"
    by (simp add: detect_note_boundaries_starts finditer_starts_sorted)
  have e: "\<forall>b\<in>set ?bs. start_pos b \<le> length tx"
  proof
    fix b assume "b \<in> set ?bs"
    then have "start_pos b \<in> set (map m_start ?ms)"
      using detect_note_boundaries_starts[of tx] by (metis imageI set_map)
    then show "start_pos b \<le> length tx" using finditer_props[of _ main_note_pattern tx] by fastforce
  qed
  from a b c d e show ?thesis by blast
qed

text \<open>
  Claim C4 as stated asks for \<open>boundaries[0].start = 0\<close>. A text with an introduction
  before its first note has its first boundary at the marker, here at offset 5.
\<close>

theorem note_boundaries_first_start_counterexample:
  "detect_note_boundaries two_notes_doc \<noteq> [] \<and>
   start_pos (detect_note_boundaries two_notes_doc ! 0) = 5 \<and>
   start_pos (detect_note_boundaries two_notes_doc ! 0) \<noteq> 0"
  by code_simp

theorem note_boundaries_tile_from_first_marker_witness:
  "detect_note_boundaries two_notes_doc \<noteq> [] \<and>
   map (\<lambda>b. (start_pos b, end_pos b)) (detect_note_boundaries two_notes_doc) =
     [(5, Some 20), (20, Some 35)] \<and>
   end_pos (last (detect_note_boundaries two_notes_doc)) = Some (length two_notes_doc) \<and>
   sorted (map start_pos (detect_note_boundaries two_notes_doc))"
proof -
  have n: "detect_note_boundaries two_notes_doc \<noteq> []" by code_simp
  have v: "map (\<lambda>b. (start_pos b, end_pos b)) (detect_note_boundaries two_notes_doc) =
     [(5, Some 20), (20, Some 35)]" by code_simp
  from note_boundaries_tile_from_first_marker[OF n] n v show ?thesis by blast
qed







section \<open>Properties of the element chunker\<close>



text \<open>
  Claim C3 says that every chunk with \<open>is_critical = False\<close> has at most \<open>max_chunk_size\<close>
  characters, the chunks carrying the one-sentence overlap included. With
  \<open>max_chunk_size = 10\<close>, a paragraph of three sentences of 8 characters is split into chunks
  of 8, 17 and 17 characters: when a chunk is closed, the next one starts with the previous
  sentence and the current one, and that sum is not checked against the budget.
\<close>

theorem overlap_chunk_exceeds_budget:
  "map (\<lambda>c. (text' c, char_count c, is_critical c)) (chunk_element 10 overlap_paragraph 1) =
     [(''aaaaaaa.'', 8, False), (''aaaaaaa. bbbbbbb.'', 17, False), (''bbbbbbb. ccccccc.'', 17, False)]"
  by code_simp

theorem overlap_chunk_exceeds_budget_witness:
  "length (chunk_element 10 overlap_paragraph 1) = 3 \<and>
   classify_element_type (e_text overlap_paragraph) = ''paragraph'' \<and>
   re_split sentence_split_pattern (e_text overlap_paragraph) = [''aaaaaaa.'', ''bbbbbbb.'', ''ccccccc.'']"
proof -
  have a: "length (map (\<lambda>c. (text' c, char_count c, is_critical c)) (chunk_element 10 overlap_paragraph 1)) = 3"
    unfolding overlap_chunk_exceeds_budget by simp
  have b: "classify_element_type (e_text overlap_paragraph) = ''paragraph''" by code_simp
  have c: "re_split sentence_split_pattern (e_text overlap_paragraph) = [''aaaaaaa.'', ''bbbbbbb.'', ''ccccccc.'']"
    by code_simp
  from a b c show ?thesis by simp
qed

section \<open>Properties of the note chunker\<close>




















text \<open>
  Why the amended claim stops at the two chunk types. A \<open>note_mixed\<close> chunk joins the
  elements it packs with blank lines of its own, and a \<open>note_paragraph\<close> chunk joins
  sentences with single spaces and carries no header: neither text needs to occur in the
  document.
\<close>

lemma note_mixed_chunk_example:
  "chunk_type (chunk_document_note_aware 40 [(1, mixed_doc)] ! 0) = ''note_mixed'' \<and>
   text' (chunk_document_note_aware 40 [(1, mixed_doc)] ! 0) =
     note_header_of ''Note 1'' ''Cash'' @ ''\<newline>\<newline>NOTE 1 - Cash.\<newline>\<newline>Ab'' \<and>
   \<not> sublist ''\<newline>\<newline>NOTE 1 - Cash.\<newline>\<newline>Ab'' (fst (join_pages [(1, mixed_doc)] [] [])) \<and>
   \<not> sublist (text' (chunk_document_note_aware 40 [(1, mixed_doc)] ! 0))
         (fst (join_pages [(1, mixed_doc)] [] []))"
  by code_simp

lemma note_paragraph_chunk_example:
  "chunk_type (chunk_document_note_aware 12 [(1, sentences_doc)] ! 1) = ''note_paragraph'' \<and>
   text' (chunk_document_note_aware 12 [(1, sentences_doc)] ! 1) = ''1.1 Alpha one. Beta two.'' \<and>
   \<not> sublist (text' (chunk_document_note_aware 12 [(1, sentences_doc)] ! 1))
         (fst (join_pages [(1, sentences_doc)] [] []))"
  by code_simp

section \<open>Properties of the deduplication stage\<close>

lemma py_take_is_take: "\<exists>j. py_take k xs = take j xs"
  by (auto simp: py_take_def)

lemma subseq_take_left: "subseq (take j xs) xs"
  by (metis append_take_drop_id list_emb_append_mono subseq_order.order_refl list_emb_Nil append_Nil2)

lemma subseq_py_take: "subseq (py_take k xs) xs"
  using py_take_is_take[of k xs] subseq_take_left by metis

lemma sorted_wrt_subseq_imp: "subseq ys xs \<Longrightarrow> sorted_wrt P xs \<Longrightarrow> sorted_wrt P ys"
proof (induction ys xs rule: list_emb.induct)
  case (list_emb_Nil ys)
  then show ?case by simp
next
  case (list_emb_Cons xs ys y)
  then show ?case by simp
next
  case (list_emb_Cons2 x y xs ys)
  have sub: "set xs \<subseteq> set ys"
  proof
    fix z assume "z \<in> set xs"
    then obtain z' where "z' \<in> set ys" "z = z'"
      using list_emb_set[OF list_emb_Cons2.hyps(2)] by blast
    then show "z \<in> set ys" by simp
  qed
  have a: "\<forall>z\<in>set ys. P y z" and b: "sorted_wrt P ys"
    using list_emb_Cons2.prems by simp_all
  have "sorted_wrt P xs" using list_emb_Cons2.IH b by simp
  then show ?case using a sub list_emb_Cons2.hyps(1) by auto
qed

lemma subseq_mset_le: "subseq ys xs \<Longrightarrow> mset ys \<subseteq># mset xs"
  by (induction ys xs rule: list_emb.induct) (auto intro: subset_mset.order_trans)

lemma dedup_loop_shape:
  "\<exists>zs. dedup_loop ratio thr mx xs dd seen = dd @ zs \<and> subseq zs xs \<and> pairwise_fresh ratio thr seen zs"
proof (induction xs arbitrary: dd seen)
  case Nil
  then show ?case by simp
next
  case (Cons r rest)
  show ?case
  proof (cases "is_duplicate ratio thr r seen")
    case True
    from Cons.IH[of dd seen] obtain zs where
      "dedup_loop ratio thr mx rest dd seen = dd @ zs" "subseq zs rest" "pairwise_fresh ratio thr seen zs"
      by blast
    with True show ?thesis by auto
  next
    case False
    show ?thesis
    proof (cases "int (length (dd @ [r])) \<ge> mx")
      case True
      with False have "dedup_loop ratio thr mx (r # rest) dd seen = dd @ [r]" by simp
      moreover have "subseq [r] (r # rest)" by simp
      moreover have "pairwise_fresh ratio thr seen [r]" using False by simp
      ultimately show ?thesis by blast
    next
      case nobreak: False
      from Cons.IH[of "dd @ [r]" "seen @ [chunk_text r]"] obtain zs where
        z: "dedup_loop ratio thr mx rest (dd @ [r]) (seen @ [chunk_text r]) = (dd @ [r]) @ zs"
           "subseq zs rest" "pairwise_fresh ratio thr (seen @ [chunk_text r]) zs"
        by blast
      from False nobreak z(1) have "dedup_loop ratio thr mx (r # rest) dd seen = dd @ (r # zs)" by simp
      moreover have "subseq (r # zs) (r # rest)" using z(2) by simp
      moreover have "pairwise_fresh ratio thr seen (r # zs)" using False z(3) by simp
      ultimately show ?thesis by blast
    qed
  qed
qed

lemma is_duplicate_mono:
  "set seen' \<subseteq> set seen \<Longrightarrow> is_duplicate ratio thr r seen' \<Longrightarrow> is_duplicate ratio thr r seen"
  by (auto simp: is_duplicate_def list_ex_iff)

lemma pairwise_fresh_mono:
  "subseq ys zs \<Longrightarrow> set seen' \<subseteq> set seen \<Longrightarrow> pairwise_fresh ratio thr seen zs \<Longrightarrow>
   pairwise_fresh ratio thr seen' ys"
proof (induction ys zs arbitrary: seen seen' rule: list_emb.induct)
  case (list_emb_Nil ys)
  then show ?case by simp
next
  case (list_emb_Cons xs ys y)
  have "set seen' \<subseteq> set (seen @ [chunk_text y])" using list_emb_Cons.prems by auto
  moreover have "pairwise_fresh ratio thr (seen @ [chunk_text y]) ys"
    using list_emb_Cons.prems by simp
  ultimately show ?case by (rule list_emb_Cons.IH)
next
  case (list_emb_Cons2 x y xs ys)
  have "set (seen' @ [chunk_text x]) \<subseteq> set (seen @ [chunk_text y])"
    using list_emb_Cons2 by auto
  moreover have "pairwise_fresh ratio thr (seen @ [chunk_text y]) ys"
    using list_emb_Cons2.prems by simp
  ultimately have "pairwise_fresh ratio thr (seen' @ [chunk_text x]) xs"
    by (rule list_emb_Cons2.IH)
  moreover have "\<not> is_duplicate ratio thr x seen'"
    using list_emb_Cons2.prems list_emb_Cons2.hyps(1) is_duplicate_mono by auto
  ultimately show ?case by simp
qed

lemma dedup_loop_keeps_fresh:
  "pairwise_fresh ratio thr seen ys \<Longrightarrow> int (length dd + length ys) \<le> mx \<Longrightarrow>
   dedup_loop ratio thr mx ys dd seen = dd @ ys"
proof (induction ys arbitrary: dd seen)
  case Nil
  then show ?case by simp
next
  case (Cons r rest)
  show ?case
  proof (cases "int (length (dd @ [r])) \<ge> mx")
    case True
    have "int (length dd) + 1 + int (length rest) \<le> mx" using Cons.prems(2) by simp
    moreover have "mx \<le> int (length dd) + 1" using True by simp
    ultimately have "int (length rest) \<le> 0" by linarith
    with True have "length rest = 0" by simp
    with True Cons.prems show ?thesis by simp
  next
    case False
    have "dedup_loop ratio thr mx rest (dd @ [r]) (seen @ [chunk_text r]) = (dd @ [r]) @ rest"
      using Cons.prems by (intro Cons.IH) auto
    with False Cons.prems show ?thesis by simp
  qed
qed

lemma diversity_loop_cap_filter:
  "diversity_loop m xs pc acc = acc @ cap_filter m (count_of pc) xs"
proof (induction xs arbitrary: pc acc)
  case Nil
  then show ?case by simp
next
  case (Cons r rs)
  show ?case
  proof (cases "primary_page r")
    case None
    then show ?thesis by (simp add: Cons.IH)
  next
    case (Some p)
    have a: "count_of (if pc p = None then pc(p \<mapsto> 0) else pc) = count_of pc"
      by (auto simp: count_of_def fun_eq_iff split: option.splits)
    have b: "(case (if pc p = None then pc(p \<mapsto> 0) else pc) p of None \<Rightarrow> 0 | Some k \<Rightarrow> k) = count_of pc p"
      by (auto simp: count_of_def split: option.splits)
    have c: "count_of ((if pc p = None then pc(p \<mapsto> 0) else pc)(p \<mapsto> count_of pc p + 1)) = (count_of pc)(p := count_of pc p + 1)"
      by (auto simp: count_of_def fun_eq_iff split: option.splits)
    show ?thesis using Some
      by (simp add: Let_def b Cons.IH a c del: fun_upd_apply)
  qed
qed

lemma cap_filter_subseq: "subseq (cap_filter m cnt xs) xs"
  by (induction xs arbitrary: cnt) (auto split: option.splits)

lemma cap_filter_take_idem:
  "cap_filter m cnt (take n (cap_filter m cnt xs)) = take n (cap_filter m cnt xs)"
proof (induction xs arbitrary: cnt n)
  case Nil
  then show ?case by simp
next
  case (Cons r rs)
  show ?case
  proof (cases n)
    case 0
    then show ?thesis by simp
  next
    case (Suc k)
    show ?thesis
    proof (cases "primary_page r")
      case None
      then show ?thesis using Suc Cons.IH[of cnt k] by simp
    next
      case (Some p)
      show ?thesis
      proof (cases "cnt p < m")
        case True
        have ih: "cap_filter m (cnt(p := cnt p + 1)) (take k (cap_filter m (cnt(p := cnt p + 1)) rs)) =
                  take k (cap_filter m (cnt(p := cnt p + 1)) rs)"
          by (rule Cons.IH)
        show ?thesis using Some Suc True by (simp add: ih)
      next
        case False
        then show ?thesis using Some Cons.IH[of cnt n] by simp
      qed
    qed
  qed
qed

lemma cap_filter_count:
  "int (length (filter (\<lambda>r. primary_page r = Some p) (cap_filter m cnt xs))) \<le> max 0 (m - cnt p)"
proof (induction xs arbitrary: cnt)
  case Nil
  then show ?case by simp
next
  case (Cons r rs)
  show ?case
  proof (cases "primary_page r")
    case None
    then show ?thesis using Cons.IH[of cnt] by simp
  next
    case (Some q)
    show ?thesis
    proof (cases "cnt q < m")
      case True
      have ih: "int (length (filter (\<lambda>r. primary_page r = Some p)
                  (cap_filter m (cnt(q := cnt q + 1)) rs))) \<le> max 0 (m - (cnt(q := cnt q + 1)) p)"
        by (rule Cons.IH)
      have step: "cap_filter m cnt (r # rs) = r # cap_filter m (cnt(q := cnt q + 1)) rs"
        using Some True by simp
      show ?thesis
      proof (cases "q = p")
        case True
        with ih \<open>cnt q < m\<close> Some show ?thesis unfolding step by simp
      next
        case False
        with ih Some show ?thesis unfolding step by simp
      qed
    next
      case False
      then show ?thesis using Some Cons.IH[of cnt] by simp
    qed
  qed
qed

lemma cap_filter_pageless:
  "filter (\<lambda>r. primary_page r = None) (cap_filter m cnt xs) = filter (\<lambda>r. primary_page r = None) xs"
  by (induction xs arbitrary: cnt) (auto split: option.splits)


lemma smart_deduplicate_shape:
  "\<exists>U. pairwise_fresh ratio thr [] U \<and> subseq U (sort_by_score_desc rs) \<and>
     smart_deduplicate ratio rs thr mc mpp = py_take mc (cap_filter mpp (\<lambda>_. 0) U) \<and>
     (rs \<noteq> [] \<longrightarrow> deduplicate_by_similarity ratio rs thr (mc * 2) = U)"
proof (cases "rs = []")
  case True
  have "pairwise_fresh ratio thr [] []" by simp
  moreover have "smart_deduplicate ratio rs thr mc mpp = py_take mc (cap_filter mpp (\<lambda>_. 0) [])"
    using True by (simp add: smart_deduplicate_def py_take_def)
  ultimately show ?thesis using True by (intro exI[of _ "[]"]) simp
next
  case False
  obtain zs where z: "dedup_loop ratio thr (mc * 2) (sort_by_score_desc rs) [] [] = [] @ zs"
    "subseq zs (sort_by_score_desc rs)" "pairwise_fresh ratio thr [] zs"
    using dedup_loop_shape[of ratio thr "mc * 2" "sort_by_score_desc rs" "[]" "[]"] by blast
  have d: "deduplicate_by_similarity ratio rs thr (mc * 2) = zs"
    using False z(1) by (simp add: deduplicate_by_similarity_def)
  have "count_of Map.empty = (\<lambda>_. 0)" by (simp add: count_of_def fun_eq_iff)
  then have f: "filter_by_page_diversity zs mpp = cap_filter mpp (\<lambda>_. 0) zs"
    by (cases "zs = []") (simp_all add: filter_by_page_diversity_def diversity_loop_cap_filter)
  have "smart_deduplicate ratio rs thr mc mpp = py_take mc (cap_filter mpp (\<lambda>_. 0) zs)"
    using False d f by (simp add: smart_deduplicate_def)
  with z d show ?thesis by blast
qed

lemma sort_by_score_desc_mset: "mset (sort_by_score_desc rs) = mset rs"
  by (simp add: sort_by_score_desc_def py_sorted_mset)

lemma sort_by_score_desc_stable:
  assumes "\<forall>r\<in>set rs. score r \<noteq> NaN"
  shows "sort_by_score_desc rs = stable_sort_desc rs"
  unfolding sort_by_score_desc_def stable_sort_desc_def
  by (rule py_sorted_reverse_stable) (use assms in \<open>simp add: float_lt_key\<close>)

lemma stable_sort_desc_sorted:
  "sorted_wrt (\<lambda>a b. float_key (score b) \<le> float_key (score a)) (stable_sort_desc rs)"
proof -
  have "sorted (map (\<lambda>r. float_key (score r)) (sort_key (\<lambda>r. float_key (score r)) (rev rs)))"
    by simp
  then have "sorted_wrt (\<lambda>a b. float_key (score a) \<le> float_key (score b))
               (sort_key (\<lambda>r. float_key (score r)) (rev rs))"
    by (simp add: sorted_map)
  then show ?thesis by (simp add: stable_sort_desc_def sorted_wrt_rev)
qed

lemma stable_sort_desc_id:
  assumes "sorted_wrt (\<lambda>a b. float_key (score b) \<le> float_key (score a)) xs"
  shows "stable_sort_desc xs = xs"
proof -
  have "sorted_wrt (\<lambda>a b. float_key (score a) \<le> float_key (score b)) (rev xs)"
    using assms by (simp add: sorted_wrt_rev)
  then have "sorted (map (\<lambda>r. float_key (score r)) (rev xs))" by (simp add: sorted_map)
  then have "sort_key (\<lambda>r. float_key (score r)) (rev xs) = rev xs"
    by (rule sort_key_id_if_sorted)
  then show ?thesis by (simp add: stable_sort_desc_def)
qed

lemma sorted_float_ge_iff:
  assumes "\<forall>r\<in>set xs. score r \<noteq> NaN"
  shows "sorted_wrt (\<lambda>a b. float_ge (score a) (score b)) xs =
         sorted_wrt (\<lambda>a b. float_key (score b) \<le> float_key (score a)) xs"
  using assms by (induction xs) (auto simp: float_ge_key)

lemma filter_by_page_diversity_cap_filter:
  "filter_by_page_diversity rs mpp = cap_filter mpp (\<lambda>_. 0) rs"
proof -
  have "count_of Map.empty = (\<lambda>_. 0)" by (simp add: count_of_def fun_eq_iff)
  then show ?thesis
    by (cases "rs = []") (simp_all add: filter_by_page_diversity_def diversity_loop_cap_filter)
qed

lemma primary_page_None_iff: "primary_page r = None \<longleftrightarrow> result_page_numbers r = []"
  by (simp add: primary_page_def split: list.splits)

lemma length_filter_take_le: "length (filter P (take j xs)) \<le> length (filter P xs)"
proof -
  have "length (filter P xs) = length (filter P (take j xs)) + length (filter P (drop j xs))"
    by (metis append_take_drop_id filter_append length_append)
  then show ?thesis by simp
qed

text \<open>
  Claim C10. For every input list, the output of \<open>smart_deduplicate\<close> embeds, in order,
  into the input as Python's sort by descending score returns it; no element occurs more
  often than in the input and every output element is an input element. When no score of
  the input is NaN, that sort is the stable descending sort and the scores of the output
  are non-increasing. The model is a pure function of the input list: the source builds
  new lists (\<open>sorted\<close>, \<open>append\<close>, a slice) and assigns to no field of a result.
\<close>

theorem smart_deduplicate_subsequence:
  "subseq (smart_deduplicate ratio rs thr mc mpp) (sort_by_score_desc rs) \<and>
   mset (smart_deduplicate ratio rs thr mc mpp) \<subseteq># mset rs \<and>
   set (smart_deduplicate ratio rs thr mc mpp) \<subseteq> set rs \<and>
   ((\<forall>r\<in>set rs. score r \<noteq> NaN) \<longrightarrow>
      sort_by_score_desc rs = stable_sort_desc rs \<and>
      sorted_wrt (\<lambda>a b. float_ge (score a) (score b)) (smart_deduplicate ratio rs thr mc mpp))"
proof -
  let ?out = "smart_deduplicate ratio rs thr mc mpp"
  obtain U where U: "subseq U (sort_by_score_desc rs)"
    "?out = py_take mc (cap_filter mpp (\<lambda>_. 0) U)"
    using smart_deduplicate_shape[of ratio thr rs mc mpp] by blast
  have "subseq (py_take mc (cap_filter mpp (\<lambda>_. 0) U)) U"
    using subseq_py_take cap_filter_subseq subseq_order.order_trans by blast
  with U have s: "subseq ?out (sort_by_score_desc rs)"
    using subseq_order.order_trans by metis
  have m: "mset ?out \<subseteq># mset rs"
    using subseq_mset_le[OF s] by (simp add: sort_by_score_desc_mset)
  from m have t: "set ?out \<subseteq> set rs"
    using set_mset_mono by fastforce
  have n: "sort_by_score_desc rs = stable_sort_desc rs \<and>
           sorted_wrt (\<lambda>a b. float_ge (score a) (score b)) ?out"
    if nan: "\<forall>r\<in>set rs. score r \<noteq> NaN"
  proof -
    have e: "sort_by_score_desc rs = stable_sort_desc rs"
      by (rule sort_by_score_desc_stable[OF nan])
    have "sorted_wrt (\<lambda>a b. float_key (score b) \<le> float_key (score a)) ?out"
      using sorted_wrt_subseq_imp[OF s] stable_sort_desc_sorted[of rs] by (simp add: e)
    moreover have "\<forall>r\<in>set ?out. score r \<noteq> NaN" using t nan by blast
    ultimately show ?thesis using e by (simp add: sorted_float_ge_iff)
  qed
  from s m t n show ?thesis by blast
qed

theorem smart_deduplicate_subsequence_witness:
  "map chunk_id (smart_deduplicate exact_ratio sample_results (Fin (3 / 4)) 5 2) =
     [''r2'', ''r4'', ''r6''] \<and>
   subseq (smart_deduplicate exact_ratio sample_results (Fin (3 / 4)) 5 2)
     (sort_by_score_desc sample_results) \<and>
   mset (smart_deduplicate exact_ratio sample_results (Fin (3 / 4)) 5 2) \<subseteq># mset sample_results \<and>
   set (smart_deduplicate exact_ratio sample_results (Fin (3 / 4)) 5 2) \<subseteq> set sample_results \<and>
   sort_by_score_desc sample_results = stable_sort_desc sample_results \<and>
   sorted_wrt (\<lambda>a b. float_ge (score a) (score b))
     (smart_deduplicate exact_ratio sample_results (Fin (3 / 4)) 5 2)"
proof -
  have v: "map chunk_id (smart_deduplicate exact_ratio sample_results (Fin (3 / 4)) 5 2) =
     [''r2'', ''r4'', ''r6'']"
    by code_simp
  have h: "\<forall>r\<in>set sample_results. score r \<noteq> NaN"
    by (simp add: sample_results_def mk_result_def)
  from v h smart_deduplicate_subsequence[of exact_ratio sample_results "Fin (3 / 4)" 5 2]
  show ?thesis by blast
qed

text \<open>
  The claim as stated, for every input list, fails on an input with a NaN score: every
  comparison with NaN is false, Python's sort leaves the scores 1.0, NaN, 2.0 in this order,
  and the output is not in non-increasing order of score.
\<close>

theorem smart_deduplicate_nan_not_descending:
  "map (\<lambda>r. (chunk_id r, score r)) (smart_deduplicate exact_ratio nan_results (Fin (3 / 4)) 5 2) =
     [(''r1'', Fin 1), (''r2'', NaN), (''r3'', Fin 2)] \<and>
   \<not> sorted_wrt (\<lambda>a b. float_ge (score a) (score b))
       (smart_deduplicate exact_ratio nan_results (Fin (3 / 4)) 5 2)"
proof -
  have a: "map (\<lambda>r. (chunk_id r, score r)) (smart_deduplicate exact_ratio nan_results (Fin (3 / 4)) 5 2) =
     [(''r1'', Fin 1), (''r2'', NaN), (''r3'', Fin 2)]"
    by code_simp
  have b: "\<not> sorted_wrt (\<lambda>a b. float_ge (score a) (score b))
       (smart_deduplicate exact_ratio nan_results (Fin (3 / 4)) 5 2)"
    by code_simp
  from a b show ?thesis by (rule conjI)
qed

text \<open>
  Claim C7. In every output of the deduplication stage, and in every output of the diversity
  pass alone, the number of results with primary page \<open>p\<close> (the first entry of the page
  list) is at most \<open>max_per_page\<close>, and zero when \<open>max_per_page\<close> is not positive; the
  diversity pass keeps every result whose page list is empty.
\<close>

theorem page_diversity_cap:
  "int (length (filter (\<lambda>r. primary_page r = Some p)
          (smart_deduplicate ratio rs thr mc mpp))) \<le> max 0 mpp \<and>
   int (length (filter (\<lambda>r. primary_page r = Some p)
          (filter_by_page_diversity rs mpp))) \<le> max 0 mpp \<and>
   filter (\<lambda>r. result_page_numbers r = []) (filter_by_page_diversity rs mpp) =
     filter (\<lambda>r. result_page_numbers r = []) rs"
proof -
  obtain U where U: "smart_deduplicate ratio rs thr mc mpp = py_take mc (cap_filter mpp (\<lambda>_. 0) U)"
    using smart_deduplicate_shape[of ratio thr rs mc mpp] by blast
  obtain j where j: "py_take mc (cap_filter mpp (\<lambda>_. 0) U) = take j (cap_filter mpp (\<lambda>_. 0) U)"
    using py_take_is_take by blast
  have "length (filter (\<lambda>r. primary_page r = Some p) (smart_deduplicate ratio rs thr mc mpp))
        \<le> length (filter (\<lambda>r. primary_page r = Some p) (cap_filter mpp (\<lambda>_. 0) U))"
    unfolding U j by (rule length_filter_take_le)
  moreover have "int (length (filter (\<lambda>r. primary_page r = Some p) (cap_filter mpp (\<lambda>_. 0) U)))
        \<le> max 0 (mpp - 0)"
    by (rule cap_filter_count)
  ultimately have a: "int (length (filter (\<lambda>r. primary_page r = Some p)
          (smart_deduplicate ratio rs thr mc mpp))) \<le> max 0 mpp"
    by simp
  have "int (length (filter (\<lambda>r. primary_page r = Some p) (cap_filter mpp (\<lambda>_. 0) rs)))
        \<le> max 0 (mpp - 0)"
    by (rule cap_filter_count)
  then have b: "int (length (filter (\<lambda>r. primary_page r = Some p)
          (filter_by_page_diversity rs mpp))) \<le> max 0 mpp"
    by (simp add: filter_by_page_diversity_cap_filter)
  have c: "filter (\<lambda>r. result_page_numbers r = []) (filter_by_page_diversity rs mpp) =
     filter (\<lambda>r. result_page_numbers r = []) rs"
    using cap_filter_pageless[of mpp "\<lambda>_. 0" rs]
    by (simp add: filter_by_page_diversity_cap_filter primary_page_None_iff)
  from a b c show ?thesis by blast
qed

theorem page_diversity_cap_witness:
  "map chunk_id (filter_by_page_diversity sample_results 2) = [''r1'', ''r2'', ''r6''] \<and>
   (int (length (filter (\<lambda>r. primary_page r = Some 7)
          (smart_deduplicate exact_ratio sample_results (Fin (3 / 4)) 5 2))) \<le> max 0 2 \<and>
    int (length (filter (\<lambda>r. primary_page r = Some 7)
          (filter_by_page_diversity sample_results 2))) \<le> max 0 2 \<and>
    filter (\<lambda>r. result_page_numbers r = []) (filter_by_page_diversity sample_results 2) =
      filter (\<lambda>r. result_page_numbers r = []) sample_results)"
proof -
  have v: "map chunk_id (filter_by_page_diversity sample_results 2) = [''r1'', ''r2'', ''r6'']"
    by code_simp
  from v page_diversity_cap[of 7 exact_ratio sample_results "Fin (3 / 4)" 5 2]
  show ?thesis by (rule conjI)
qed

text \<open>
  Claim C6. \<open>smart_deduplicate\<close> is idempotent on every result list none of whose scores is
  NaN: for every similarity ratio, threshold, \<open>max_chunks\<close> and \<open>max_per_page\<close>, applying it
  to its own output with the same parameters returns that output unchanged.
\<close>

theorem smart_deduplicate_idempotent:
  assumes nan: "\<forall>r\<in>set rs. score r \<noteq> NaN"
  shows "smart_deduplicate ratio (smart_deduplicate ratio rs thr mc mpp) thr mc mpp =
         smart_deduplicate ratio rs thr mc mpp"
proof -
  let ?out = "smart_deduplicate ratio rs thr mc mpp"
  obtain U where U: "pairwise_fresh ratio thr [] U" "subseq U (sort_by_score_desc rs)"
    "?out = py_take mc (cap_filter mpp (\<lambda>_. 0) U)"
    "rs \<noteq> [] \<longrightarrow> deduplicate_by_similarity ratio rs thr (mc * 2) = U"
    using smart_deduplicate_shape[of ratio thr rs mc mpp] by blast
  show ?thesis
  proof (cases "?out = []")
    case True
    then show ?thesis by (simp add: smart_deduplicate_def)
  next
    case False
    have pos: "0 < mc"
    proof (rule ccontr)
      assume "\<not> 0 < mc"
      then have mc: "mc \<le> 0" by simp
      have "rs \<noteq> []" using False by (auto simp: smart_deduplicate_def)
      have "length (deduplicate_by_similarity ratio rs thr (mc * 2)) \<le> 1"
      proof -
        have "\<And>xs dd seen. dd = [] \<Longrightarrow> length (dedup_loop ratio thr (mc * 2) xs dd seen) \<le> 1"
        proof -
          fix xs :: "RetrievalResult list" and dd :: "RetrievalResult list" and seen
          assume "dd = []"
          then show "length (dedup_loop ratio thr (mc * 2) xs dd seen) \<le> 1"
            using mc by (induction xs arbitrary: seen) auto
        qed
        then show ?thesis by (simp add: deduplicate_by_similarity_def)
      qed
      moreover have "length (cap_filter mpp (\<lambda>_. 0) U) \<le> length U"
        using cap_filter_subseq[of mpp "\<lambda>_. 0" U] by (simp add: list_emb_length)
      moreover have "deduplicate_by_similarity ratio rs thr (mc * 2) = U"
        using \<open>rs \<noteq> []\<close> U(4) by simp
      ultimately have "length (cap_filter mpp (\<lambda>_. 0) U) \<le> 1" by simp
      then have "py_take mc (cap_filter mpp (\<lambda>_. 0) U) = []"
        using mc by (auto simp: py_take_def)
      with U False show False by simp
    qed
    then have out: "?out = take (nat mc) (cap_filter mpp (\<lambda>_. 0) U)"
      using U by (simp add: py_take_def)
    have sub: "subseq ?out U"
      unfolding out using subseq_take_left cap_filter_subseq subseq_order.order_trans by blast
    have sub2: "subseq ?out (stable_sort_desc rs)"
      using sub U(2) subseq_order.order_trans sort_by_score_desc_stable[OF nan] by metis
    have srt: "sorted_wrt (\<lambda>a b. float_key (score b) \<le> float_key (score a)) ?out"
      using sorted_wrt_subseq_imp[OF sub2] stable_sort_desc_sorted by blast
    have "mset ?out \<subseteq># mset (stable_sort_desc rs)" by (rule subseq_mset_le[OF sub2])
    then have "set ?out \<subseteq> set (stable_sort_desc rs)" using set_mset_mono by fastforce
    then have "set ?out \<subseteq> set rs" by (simp add: stable_sort_desc_def)
    then have nan2: "\<forall>r\<in>set ?out. score r \<noteq> NaN" using nan by blast
    have sid: "sort_by_score_desc ?out = ?out"
      using sort_by_score_desc_stable[OF nan2] stable_sort_desc_id[OF srt] by simp
    have fresh: "pairwise_fresh ratio thr [] ?out"
      using pairwise_fresh_mono[OF sub _ U(1)] by simp
    have len: "int (length ?out) \<le> mc * 2" using pos unfolding out by simp
    have d: "deduplicate_by_similarity ratio ?out thr (mc * 2) = ?out"
      using False dedup_loop_keeps_fresh[OF fresh, of "[]" "mc * 2"] len
      by (simp add: deduplicate_by_similarity_def sid)
    have "count_of Map.empty = (\<lambda>_. 0)" by (simp add: count_of_def fun_eq_iff)
    then have f: "filter_by_page_diversity ?out mpp = ?out"
      using False cap_filter_take_idem[of mpp "\<lambda>_. 0" "nat mc" U]
      by (simp add: filter_by_page_diversity_def diversity_loop_cap_filter out)
    have t: "py_take mc ?out = ?out" using pos unfolding out by (simp add: py_take_def)
    have e: "\<And>xs. xs \<noteq> [] \<Longrightarrow> smart_deduplicate ratio xs thr mc mpp =
        py_take mc (filter_by_page_diversity (deduplicate_by_similarity ratio xs thr (mc * 2)) mpp)"
      by (simp add: smart_deduplicate_def)
    show ?thesis by (simp only: e[OF False] d f t)
  qed
qed

theorem smart_deduplicate_idempotent_witness:
  "map chunk_id (smart_deduplicate exact_ratio sample_results (Fin (3 / 4)) 5 2) =
     [''r2'', ''r4'', ''r6''] \<and>
   smart_deduplicate exact_ratio
     (smart_deduplicate exact_ratio sample_results (Fin (3 / 4)) 5 2) (Fin (3 / 4)) 5 2 =
     smart_deduplicate exact_ratio sample_results (Fin (3 / 4)) 5 2"
proof -
  have v: "map chunk_id (smart_deduplicate exact_ratio sample_results (Fin (3 / 4)) 5 2) =
     [''r2'', ''r4'', ''r6'']"
    by code_simp
  have h: "\<forall>r\<in>set sample_results. score r \<noteq> NaN"
    by (simp add: sample_results_def mk_result_def)
  from v smart_deduplicate_idempotent[of sample_results exact_ratio "Fin (3 / 4)" 5 2, OF h]
  show ?thesis by (rule conjI)
qed

text \<open>
  The claim as stated, for every result list, fails on a list with a NaN score. Python's
  sort leaves the scores 1.0, NaN, 2.0 in this order; the second result is dropped as a
  duplicate of the first, so the output has the scores 1.0, 2.0; applied to that output,
  the sort puts 2.0 first.
\<close>

theorem smart_deduplicate_nan_not_idempotent:
  "map chunk_id (smart_deduplicate exact_ratio nan_duplicate (Fin (3 / 4)) 5 2) = [''r1'', ''r3''] \<and>
   map chunk_id
     (smart_deduplicate exact_ratio
        (smart_deduplicate exact_ratio nan_duplicate (Fin (3 / 4)) 5 2) (Fin (3 / 4)) 5 2) =
     [''r3'', ''r1''] \<and>
   smart_deduplicate exact_ratio
     (smart_deduplicate exact_ratio nan_duplicate (Fin (3 / 4)) 5 2) (Fin (3 / 4)) 5 2 \<noteq>
     smart_deduplicate exact_ratio nan_duplicate (Fin (3 / 4)) 5 2"
proof -
  have a: "map chunk_id (smart_deduplicate exact_ratio nan_duplicate (Fin (3 / 4)) 5 2) =
     [''r1'', ''r3'']"
    by code_simp
  have b: "map chunk_id
     (smart_deduplicate exact_ratio
        (smart_deduplicate exact_ratio nan_duplicate (Fin (3 / 4)) 5 2) (Fin (3 / 4)) 5 2) =
     [''r3'', ''r1'']"
    by code_simp
  from a b have "smart_deduplicate exact_ratio
     (smart_deduplicate exact_ratio nan_duplicate (Fin (3 / 4)) 5 2) (Fin (3 / 4)) 5 2 \<noteq>
     smart_deduplicate exact_ratio nan_duplicate (Fin (3 / 4)) 5 2"
    by auto
  with a b show ?thesis by blast
qed

section \<open>Properties of the retrieval engine\<close>

lemma section_match_count_eq: "section_match_count hints r = int (match_count hints r)"
proof -
  have "\<And>n. foldl (\<lambda>n section_type. if section_type \<in> set hints then n + 1 else n) n xs
        = n + int (length (filter (\<lambda>t. t \<in> set hints) xs))" for xs
    by (induction xs) auto
  then show ?thesis by (simp add: section_match_count_def match_count_def)
qed

lemma rerank_result_boosted: "rerank_result hints = boosted hints"
proof
  fix r
  show "rerank_result hints r = boosted hints r"
    by (cases "match_count hints r = 0")
       (simp_all add: rerank_result_def boosted_def boost_factor_def section_match_count_eq
          Let_def float_mul_commute[of "float_of_int (int (match_count hints r))"])
qed

lemma hints_of_set:
  "set (hints_of vocabulary lq) =
     {h. \<exists>phrases. (phrases, h) \<in> set vocabulary \<and> (\<exists>phrase \<in> set phrases. sublist phrase lq)}"
proof (induction vocabulary)
  case Nil
  then show ?case by (simp add: hints_of_def)
next
  case (Cons e vocabulary)
  obtain phrases h where e: "e = (phrases, h)" by (cases e)
  have "set (hints_of (e # vocabulary) lq) =
        (if \<exists>phrase \<in> set phrases. sublist phrase lq then {h} else {}) \<union>
        set (hints_of vocabulary lq)"
    by (simp add: hints_of_def e)
  then show ?case unfolding Cons.IH e by auto
qed

lemma query_section_hints_hints_of:
  "query_section_hints q f =
     hints_of hint_vocabulary (lower q) @ (case truthy f of None \<Rightarrow> [] | Some fs \<Rightarrow> fs)"
  by (simp add: query_section_hints_def hints_of_def hint_vocabulary_def Let_def)

lemma query_section_hints_set: "set (query_section_hints q f) = hint_set q f"
proof -
  have "set (case truthy f of None \<Rightarrow> [] | Some fs \<Rightarrow> fs) =
        (case f of None \<Rightarrow> {} | Some fs \<Rightarrow> set fs)"
    by (cases f) (auto simp: truthy_def)
  then show ?thesis
    by (simp add: query_section_hints_hints_of hints_of_set hint_set_def)
qed

text \<open>
  A result without a match keeps its score; for a score that is a double this is its
  product with the boost factor of no match, which is 1.0.
\<close>

lemma boost_factor_no_match: "boost_factor 0 = Fin 1"
  by code_simp

lemma boosted_no_match:
  "match_count hints r = 0 \<Longrightarrow> is_double (score r) \<Longrightarrow>
   score (boosted hints r) = float_mul (score r) (boost_factor 0)"
  by (simp add: boosted_def boost_factor_no_match float_mul_one)

text \<open>
  Claim C8. For every result list, query and section filter, the re-rank stage returns the
  list in which each result with \<open>match_count\<close> at least 1 has its score multiplied, in
  double-precision arithmetic, by the double \<open>1.0 + 0.2 * match_count\<close> and its tier set
  to \<open>re-ranked\<close>, and each other result is unchanged; \<open>match_count\<close> counts the entries of
  the result's \<open>section_types\<close> that are in the hint set, which holds the vocabulary
  entries whose phrase occurs in the lowercased query and the section filters. That list
  is then sorted by Python's sort by descending score: the result is a permutation of it,
  and when no boosted score is NaN it is the stable descending sort, in non-increasing
  order of score.
\<close>

theorem rerank_by_classification_boost:
  "rerank_by_classification rs q f =
     sort_by_score_desc (map (boosted (query_section_hints q f)) rs) \<and>
   set (query_section_hints q f) = hint_set q f \<and>
   mset (rerank_by_classification rs q f) = mset (map (boosted (query_section_hints q f)) rs) \<and>
   ((\<forall>r\<in>set rs. score (boosted (query_section_hints q f) r) \<noteq> NaN) \<longrightarrow>
      rerank_by_classification rs q f =
        stable_sort_desc (map (boosted (query_section_hints q f)) rs) \<and>
      sorted_wrt (\<lambda>a b. float_ge (score a) (score b)) (rerank_by_classification rs q f))"
proof -
  let ?bs = "map (boosted (query_section_hints q f)) rs"
  have a: "rerank_by_classification rs q f = sort_by_score_desc ?bs"
    by (simp add: rerank_by_classification_def rerank_result_boosted)
  have n: "sort_by_score_desc ?bs = stable_sort_desc ?bs \<and>
           sorted_wrt (\<lambda>a b. float_ge (score a) (score b)) (sort_by_score_desc ?bs)"
    if nan: "\<forall>r\<in>set rs. score (boosted (query_section_hints q f) r) \<noteq> NaN"
  proof -
    have nb: "\<forall>r\<in>set ?bs. score r \<noteq> NaN" using nan by simp
    have e: "sort_by_score_desc ?bs = stable_sort_desc ?bs"
      by (rule sort_by_score_desc_stable[OF nb])
    have "set (stable_sort_desc ?bs) = set ?bs" by (simp add: stable_sort_desc_def)
    then have "\<forall>r\<in>set (stable_sort_desc ?bs). score r \<noteq> NaN" using nb by blast
    then have "sorted_wrt (\<lambda>a b. float_ge (score a) (score b)) (stable_sort_desc ?bs)"
      using stable_sort_desc_sorted[of ?bs] by (simp add: sorted_float_ge_iff)
    then show ?thesis using e by simp
  qed
  show ?thesis unfolding a using n sort_by_score_desc_mset query_section_hints_set by blast
qed

theorem rerank_by_classification_boost_witness:
  "map (\<lambda>r. (chunk_id r, retrieval_tier r, score r))
     (rerank_by_classification tagged_results ''Fair value in the Notes'' None) =
     [(''b'', ''vector'', Fin (3 / 4)), (''c'', ''re-ranked'', Fin (3 / 4)),
      (''a'', ''re-ranked'', Fin (3152519739159347 / 4503599627370496))] \<and>
   rerank_by_classification tagged_results ''Fair value in the Notes'' None =
     sort_by_score_desc
       (map (boosted (query_section_hints ''Fair value in the Notes'' None)) tagged_results) \<and>
   set (query_section_hints ''Fair value in the Notes'' None) =
     hint_set ''Fair value in the Notes'' None \<and>
   mset (rerank_by_classification tagged_results ''Fair value in the Notes'' None) =
     mset (map (boosted (query_section_hints ''Fair value in the Notes'' None)) tagged_results) \<and>
   rerank_by_classification tagged_results ''Fair value in the Notes'' None =
     stable_sort_desc
       (map (boosted (query_section_hints ''Fair value in the Notes'' None)) tagged_results) \<and>
   sorted_wrt (\<lambda>a b. float_ge (score a) (score b))
     (rerank_by_classification tagged_results ''Fair value in the Notes'' None)"
proof -
  have v: "map (\<lambda>r. (chunk_id r, retrieval_tier r, score r))
     (rerank_by_classification tagged_results ''Fair value in the Notes'' None) =
     [(''b'', ''vector'', Fin (3 / 4)), (''c'', ''re-ranked'', Fin (3 / 4)),
      (''a'', ''re-ranked'', Fin (3152519739159347 / 4503599627370496))]"
    by code_simp
  have h: "\<forall>r\<in>set tagged_results.
             score (boosted (query_section_hints ''Fair value in the Notes'' None) r) \<noteq> NaN"
    by code_simp
  from v h rerank_by_classification_boost[of tagged_results "''Fair value in the Notes''" None]
  show ?thesis by blast
qed

text \<open>
  The claim as stated fails in two ways. The product is rounded: the score 0.75 with two
  matches becomes the double 1.0499999999999998 and the score 0.875 with one match becomes
  the double 1.05, neither of them the exact product 1.05 of the score and
  \<open>1 + 0.2 * match_count\<close>, and the second result is returned first although the exact
  products are equal. And with a NaN score the sorted list is not in descending order.
\<close>

theorem rerank_rounds_and_nan_counterexample:
  "map (\<lambda>r. (chunk_id r, score r))
     (rerank_by_classification tied_results ''Fair value in the Notes'' None) =
     [(''b'', Fin (4728779608739021 / 4503599627370496)),
      (''a'', Fin (1182194902184755 / 1125899906842624))] \<and>
   Fin (4728779608739021 / 4503599627370496) \<noteq> Fin (7 / 8 * (1 + 2 / 10 * 1)) \<and>
   Fin (1182194902184755 / 1125899906842624) \<noteq> Fin (3 / 4 * (1 + 2 / 10 * 2)) \<and>
   map (\<lambda>r. (chunk_id r, score r)) (rerank_by_classification nan_results ''cash'' None) =
     [(''r1'', Fin 1), (''r2'', NaN), (''r3'', Fin 2)] \<and>
   \<not> sorted_wrt (\<lambda>a b. float_ge (score a) (score b))
       (rerank_by_classification nan_results ''cash'' None)"
proof -
  have a: "map (\<lambda>r. (chunk_id r, score r))
     (rerank_by_classification tied_results ''Fair value in the Notes'' None) =
     [(''b'', Fin (4728779608739021 / 4503599627370496)),
      (''a'', Fin (1182194902184755 / 1125899906842624))]"
    by code_simp
  have b: "Fin (4728779608739021 / 4503599627370496) \<noteq> Fin (7 / 8 * (1 + 2 / 10 * 1))"
    by simp
  have c: "Fin (1182194902184755 / 1125899906842624) \<noteq> Fin (3 / 4 * (1 + 2 / 10 * 2))"
    by simp
  have d: "map (\<lambda>r. (chunk_id r, score r)) (rerank_by_classification nan_results ''cash'' None) =
     [(''r1'', Fin 1), (''r2'', NaN), (''r3'', Fin 2)]"
    by code_simp
  have e: "\<not> sorted_wrt (\<lambda>a b. float_ge (score a) (score b))
       (rerank_by_classification nan_results ''cash'' None)"
    by code_simp
  from a b c d e show ?thesis by blast
qed

text \<open>
  Claim C2 says that \<open>retrieve\<close> never raises when a backend is down. In Scenario D of the
  specification (the vector index raises on every call, the keyword index returns three
  rows) the exception of the vector index leaves \<open>_vector_search\<close> and \<open>retrieve\<close>: the
  caller receives the exception, not the three keyword results.
\<close>

theorem retrieve_vector_index_raises:
  "retrieve vector_down exact_ratio ''revenue 31,34,063'' ''acme'' 5 None None None True
     (Fin (3 / 4)) =
     Inl (BackendError ''vector index down'')"
  by (simp add: retrieve_def vector_down_def vector_search_def)

theorem retrieve_vector_index_raises_witness:
  "isl (retrieve vector_down exact_ratio ''revenue 31,34,063'' ''acme'' 5 None None None True
          (Fin (3 / 4)))"
  using retrieve_vector_index_raises by simp

text \<open>
  The other two failures of the claim are handled as it says: a failed embedding and a
  raising keyword index each empty their own tier only. \<open>retrieve\<close> returns whenever the
  connection check passes and the vector tier does not raise, that is, the embedding fails
  or the vector index answers with rows without a null similarity.
\<close>

lemma vector_search_embedding_failure:
  "\<not> success (embed_single env q) \<Longrightarrow> vector_search env q c k sf st nn = Inr []"
  by (simp add: vector_search_def)

lemma keyword_search_failure:
  "keyword_query env q c (truthy sf) (truthy st) (truthy nn) k = Inl e \<Longrightarrow>
   keyword_search env q c k sf st nn = []"
  by (simp add: keyword_search_def)

lemma rows_to_results_returns:
  "\<forall>row\<in>set rows. row_value row \<noteq> None \<Longrightarrow> \<exists>rs. rows_to_results tier rows = Inr rs"
  by (induction rows) (auto simp: row_to_result_def to_float_def)

lemma retrieve_returns_unless_vector_tier_raises:
  assumes "ensure_connection env = None"
    and "\<not> success (embed_single env q) \<or>
         (\<exists>rows. vector_query env (embedding (embed_single env q)) c (truthy sf) (truthy st)
                    (truthy nn) (k * 3) = Inr rows \<and>
                 (\<forall>row\<in>set rows. row_value row \<noteq> None))"
  shows "\<exists>rs. retrieve env ratio q c k sf st nn dedup thr = Inr rs"
proof -
  from assms(2) have "\<exists>vs. vector_search env q c (k * 3) sf st nn = Inr vs"
    using rows_to_results_returns[of _ "''vector''"] by (auto simp: vector_search_def Let_def)
  then obtain vs where "vector_search env q c (k * 3) sf st nn = Inr vs" by blast
  with assms(1) show ?thesis by (simp add: retrieve_def Let_def)
qed

lemma retrieve_embedding_down:
  "map_sum id (map (\<lambda>r. (chunk_id r, retrieval_tier r)))
     (retrieve embedding_down exact_ratio ''revenue 31,34,063'' ''acme'' 5 None None None
        True (Fin (3 / 4))) =
   Inr [(''k1'', ''keyword''), (''k2'', ''keyword''), (''k3'', ''keyword'')]"
  by code_simp

lemma retrieve_null_similarity:
  "retrieve null_similarity exact_ratio ''revenue 31,34,063'' ''acme'' 5 None None None True
     (Fin (3 / 4)) =
   Inl (TypeError ''float() argument must be a string or a real number'')"
  by code_simp

end
